theory Spec2Isabelle
  imports Main "HOL-Library.Word"
begin

unbundle bit_operations_syntax

section \<open>Data model of tlk.py\<close>

text \<open>
  A Python \<open>bytes\<close> object is a list of 8-bit words. A Python \<open>str\<close> is a sequence of
  Unicode code points, kept here as natural numbers, so that a text is not limited to one
  byte per character. Python integers are unbounded: the integer fields of an entry are
  \<open>int\<close>, and the range checks of \<open>struct.pack\<close> are written out below.
\<close>

type_synonym byte = "8 word"
type_synonym bytes = "byte list"
type_synonym pystr = "nat list"

text \<open>The exceptions the code can raise: \<open>struct.error\<close> and \<open>ValueError\<close>.\<close>

datatype error = StructError | ValueError

text \<open>\<open>class TlkEntry\<close>; the field \<open>text\<close> is named \<open>text_str\<close> here.\<close>

record TlkEntry =
  text_str :: pystr
  sound_resref :: bytes
  flags :: int
  volume_variance :: int
  pitch_variance :: int

text \<open>\<open>class TlkFile\<close>.\<close>

record TlkFile =
  language_id :: int
  entries :: "TlkEntry list"

definition FLAG_TEXT :: int where
  "FLAG_TEXT = 1"

definition FLAG_SOUND :: int where
  "FLAG_SOUND = 2"

definition FLAG_TOKEN :: int where
  "FLAG_TOKEN = 4"

definition TLK_SIGNATURE :: bytes where
  "TLK_SIGNATURE = [0x54, 0x4C, 0x4B, 0x20]"

definition TLK_VERSION :: bytes where
  "TLK_VERSION = [0x56, 0x31, 0x20, 0x20]"

definition HDR_SIZE :: nat where
  "HDR_SIZE = 18"

definition ENTRY_SIZE :: nat where
  "ENTRY_SIZE = 26"

text \<open>
  The text codec named by the \<open>encoding\<close> argument belongs to Python's standard library;
  it is a parameter of the model: \<open>encode_text c s\<close> is \<open>s.encode(encoding, errors='replace')\<close>
  and \<open>decode_bytes c b\<close> is \<open>b.decode(encoding, errors='replace')\<close>. With
  \<open>errors='replace'\<close> neither call raises.
\<close>

record codec =
  encode_text :: "pystr \<Rightarrow> bytes"
  decode_bytes :: "bytes \<Rightarrow> pystr"

section \<open>Python's str.strip()\<close>

text \<open>
  \<open>str.strip()\<close> without an argument removes leading and trailing characters for which
  \<open>str.isspace()\<close> holds; these are the code points CPython lists as whitespace.
\<close>

definition isspace :: "nat \<Rightarrow> bool" where
  "isspace c \<longleftrightarrow>
     (0x09 \<le> c \<and> c \<le> 0x0D) \<or> (0x1C \<le> c \<and> c \<le> 0x20) \<or> c = 0x85 \<or> c = 0xA0 \<or>
     c = 0x1680 \<or> (0x2000 \<le> c \<and> c \<le> 0x200A) \<or> c = 0x2028 \<or> c = 0x2029 \<or>
     c = 0x202F \<or> c = 0x205F \<or> c = 0x3000"

definition strip :: "pystr \<Rightarrow> pystr" where
  "strip s = rev (dropWhile isspace (rev (dropWhile isspace s)))"

section \<open>merge\_tlks (generate-bilingual-bg1and2ee.py)\<close>

text \<open>The dictionary \<open>stats\<close>; its key \<open>empty\<close> is the field \<open>empty_cnt\<close>.\<close>

record stats =
  total :: nat
  combined :: nat
  kept :: nat
  empty_cnt :: nat

text \<open>
  What \<open>merge_tlks\<close> prints: the warning about differing entry counts, with the two
  counts it formats into the line, and the closing summary line with the four counters.
\<close>

datatype printed =
  CountMismatchWarning nat nat
  | MergedSummary nat nat nat nat

text \<open>
  The body of the loop \<open>for i in range(count)\<close>, on the list of merged entries built so
  far and the counters. \<open>i\<close> is below both lengths, so both index reads are in range.
\<close>

definition merge_step ::
  "TlkFile \<Rightarrow> TlkFile \<Rightarrow> pystr \<Rightarrow> bool \<Rightarrow> nat \<Rightarrow> TlkEntry list \<times> stats \<Rightarrow> TlkEntry list \<times> stats" where
  "merge_step primary secondary separator swap i acc =
     (let p_entry = entries primary ! i;
          s_entry = entries secondary ! i;
          p_text = strip (text_str p_entry);
          s_text = strip (text_str s_entry);
          merged = fst acc;
          st = snd acc
      in if p_text = [] \<and> s_text = [] then
           (merged @ [\<lparr>text_str = [],
                       sound_resref = sound_resref p_entry,
                       flags = flags p_entry AND NOT FLAG_TEXT,
                       volume_variance = volume_variance p_entry,
                       pitch_variance = pitch_variance p_entry\<rparr>],
            st\<lparr>empty_cnt := empty_cnt st + 1\<rparr>)
         else if p_text = s_text \<or> s_text = [] then
           (merged @ [\<lparr>text_str = text_str p_entry,
                       sound_resref = sound_resref p_entry,
                       flags = flags p_entry,
                       volume_variance = volume_variance p_entry,
                       pitch_variance = pitch_variance p_entry\<rparr>],
            st\<lparr>kept := kept st + 1\<rparr>)
         else if p_text = [] then
           (merged @ [\<lparr>text_str = text_str s_entry,
                       sound_resref = sound_resref p_entry,
                       flags = flags p_entry,
                       volume_variance = volume_variance p_entry,
                       pitch_variance = pitch_variance p_entry\<rparr>],
            st\<lparr>kept := kept st + 1\<rparr>)
         else
           (let first = (if swap then text_str s_entry else text_str p_entry);
                second = (if swap then text_str p_entry else text_str s_entry);
                combined_text = first @ separator @ second
            in (merged @ [\<lparr>text_str = combined_text,
                            sound_resref = sound_resref p_entry,
                            flags = flags p_entry OR FLAG_TEXT,
                            volume_variance = volume_variance p_entry,
                            pitch_variance = pitch_variance p_entry\<rparr>],
                st\<lparr>combined := combined st + 1\<rparr>)))"

text \<open>\<open>merge_tlks\<close> returns what it printed and the merged table.\<close>

definition merge_tlks :: "TlkFile \<Rightarrow> TlkFile \<Rightarrow> pystr \<Rightarrow> bool \<Rightarrow> printed list \<times> TlkFile" where
  "merge_tlks primary secondary separator swap =
     (let warning =
            (if length (entries primary) \<noteq> length (entries secondary)
             then [CountMismatchWarning (length (entries primary)) (length (entries secondary))]
             else []);
          count = min (length (entries primary)) (length (entries secondary));
          res = fold (merge_step primary secondary separator swap) [0..<count]
                  ([], \<lparr>total = count, combined = 0, kept = 0, empty_cnt = 0\<rparr>);
          st = snd res
      in (warning @ [MergedSummary (total st) (combined st) (kept st) (empty_cnt st)],
          \<lparr>language_id = language_id primary, entries = fst res\<rparr>))"

text \<open>
  The entry the loop body appends for one pair of entries, without the counters; the
  lemmas below relate it to \<open>merge_step\<close>.
\<close>

definition merged_entry :: "TlkEntry \<Rightarrow> TlkEntry \<Rightarrow> pystr \<Rightarrow> bool \<Rightarrow> TlkEntry" where
  "merged_entry p_entry s_entry separator swap =
     (if strip (text_str p_entry) = [] \<and> strip (text_str s_entry) = [] then
        p_entry\<lparr>text_str := [], flags := flags p_entry AND NOT FLAG_TEXT\<rparr>
      else if strip (text_str p_entry) = strip (text_str s_entry) \<or> strip (text_str s_entry) = [] then
        p_entry
      else if strip (text_str p_entry) = [] then
        p_entry\<lparr>text_str := text_str s_entry\<rparr>
      else
        p_entry\<lparr>text_str := (if swap then text_str s_entry @ separator @ text_str p_entry
                                 else text_str p_entry @ separator @ text_str s_entry),
                  flags := flags p_entry OR FLAG_TEXT\<rparr>)"

text \<open>A Python string literal of ASCII characters, as its code points.\<close>

definition str :: "string \<Rightarrow> pystr" where
  "str s = map of_char s"

text \<open>
  The entries the self-test of \<open>main\<close> builds: \<open>TlkEntry(text=p, flags=FLAG_TEXT if p else 0)\<close>,
  the other fields at their defaults.
\<close>

definition test_entry :: "pystr \<Rightarrow> TlkEntry" where
  "test_entry s = \<lparr>text_str = s, sound_resref = replicate 8 0,
                    flags = (if s \<noteq> [] then FLAG_TEXT else 0),
                    volume_variance = 0, pitch_variance = 0\<rparr>"

text \<open>
  The two tables of that self-test, from its list \<open>data\<close> of four pairs of texts; both
  are built with \<open>TlkFile()\<close>, so the language id is 0.
\<close>

definition test_primary :: TlkFile where
  "test_primary = \<lparr>language_id = 0, entries =
     [test_entry (str ''Hallo Welt''), test_entry [], test_entry (str ''Gleicher Text''),
      test_entry (str ''Nur Prim'' @ [0xE4] @ str ''r'')]\<rparr>"

definition test_secondary :: TlkFile where
  "test_secondary = \<lparr>language_id = 0, entries =
     [test_entry (str ''Hello World''), test_entry [], test_entry (str ''Gleicher Text''),
      test_entry []]\<rparr>"

section \<open>The struct module: little-endian packing\<close>

definition u16_le :: "nat \<Rightarrow> bytes" where
  "u16_le n = [of_nat n, of_nat (n div 256)]"

definition u32_le :: "nat \<Rightarrow> bytes" where
  "u32_le n = [of_nat n, of_nat (n div 256), of_nat (n div 65536), of_nat (n div 16777216)]"

fun le_nat :: "bytes \<Rightarrow> nat" where
  "le_nat [] = 0"
| "le_nat (b # bs) = unat b + 256 * le_nat bs"

text \<open>
  Format \<open>Ns\<close>: the bytes are cut or padded with zero bytes to \<open>N\<close> bytes.
  \<open>bytes.ljust(n, b)\<close> pads on the right and never cuts.
\<close>

definition pack_s :: "nat \<Rightarrow> bytes \<Rightarrow> bytes" where
  "pack_s n b = take n b @ replicate (n - length b) 0"

definition ljust :: "nat \<Rightarrow> byte \<Rightarrow> bytes \<Rightarrow> bytes" where
  "ljust n fill b = b @ replicate (n - length b) fill"

text \<open>
  \<open>struct.pack('<4s4sHII', ...)\<close>: \<open>H\<close> takes 0..65535 and \<open>I\<close> takes 0..4294967295;
  any other argument raises \<open>struct.error\<close>.
\<close>

definition pack_HDR_FMT :: "bytes \<Rightarrow> bytes \<Rightarrow> int \<Rightarrow> int \<Rightarrow> int \<Rightarrow> error + bytes" where
  "pack_HDR_FMT sig ver lang num off =
     (if 0 \<le> lang \<and> lang < 65536 \<and> 0 \<le> num \<and> num < 4294967296 \<and> 0 \<le> off \<and> off < 4294967296
      then Inr (pack_s 4 sig @ pack_s 4 ver @ u16_le (nat lang) @ u32_le (nat num) @ u32_le (nat off))
      else Inl StructError)"

text \<open>\<open>struct.pack('<H8sIIII', ...)\<close>.\<close>

definition pack_ENTRY_FMT :: "int \<Rightarrow> bytes \<Rightarrow> int \<Rightarrow> int \<Rightarrow> int \<Rightarrow> int \<Rightarrow> error + bytes" where
  "pack_ENTRY_FMT fl res vol pitch off len =
     (if 0 \<le> fl \<and> fl < 65536 \<and> 0 \<le> vol \<and> vol < 4294967296 \<and> 0 \<le> pitch \<and> pitch < 4294967296
         \<and> 0 \<le> off \<and> off < 4294967296 \<and> 0 \<le> len \<and> len < 4294967296
      then Inr (u16_le (nat fl) @ pack_s 8 res @ u32_le (nat vol) @ u32_le (nat pitch)
                @ u32_le (nat off) @ u32_le (nat len))
      else Inl StructError)"

text \<open>
  \<open>struct.unpack_from(fmt, data, off)\<close> raises \<open>struct.error\<close> unless the buffer holds
  the whole record at \<open>off\<close>.
\<close>

definition unpack_from_HDR_FMT :: "bytes \<Rightarrow> nat \<Rightarrow> error + (bytes \<times> bytes \<times> nat \<times> nat \<times> nat)" where
  "unpack_from_HDR_FMT data off =
     (if length data < off + 18 then Inl StructError
      else (let r = take 18 (drop off data)
            in Inr (take 4 r, take 4 (drop 4 r), le_nat (take 2 (drop 8 r)),
                    le_nat (take 4 (drop 10 r)), le_nat (take 4 (drop 14 r)))))"

definition unpack_from_ENTRY_FMT ::
  "bytes \<Rightarrow> nat \<Rightarrow> error + (nat \<times> bytes \<times> nat \<times> nat \<times> nat \<times> nat)" where
  "unpack_from_ENTRY_FMT data off =
     (if length data < off + 26 then Inl StructError
      else (let r = take 26 (drop off data)
            in Inr (le_nat (take 2 r), take 8 (drop 2 r), le_nat (take 4 (drop 10 r)),
                    le_nat (take 4 (drop 14 r)), le_nat (take 4 (drop 18 r)),
                    le_nat (take 4 (drop 22 r)))))"

text \<open>The slice \<open>data[a:b]\<close> for \<open>0 \<le> a\<close> and \<open>0 \<le> b\<close>: both ends are clamped to the length.\<close>

definition slice :: "'a list \<Rightarrow> nat \<Rightarrow> nat \<Rightarrow> 'a list" where
  "slice data a b = take (b - a) (drop a data)"

section \<open>TlkFile.\_parse\<close>

text \<open>
  The loop \<open>for i in range(num_entries)\<close>, with \<open>i\<close> the current index and the last
  argument the number of iterations left. A \<open>struct.error\<close> in any iteration ends the
  whole call.
\<close>

fun parse_entries :: "codec \<Rightarrow> bytes \<Rightarrow> nat \<Rightarrow> nat \<Rightarrow> nat \<Rightarrow> error + TlkEntry list" where
  "parse_entries c data string_base i 0 = Inr []"
| "parse_entries c data string_base i (Suc k) =
     (case unpack_from_ENTRY_FMT data (HDR_SIZE + i * ENTRY_SIZE) of
        Inl e \<Rightarrow> Inl e
      | Inr (fl, res, vol_var, pitch_var, str_off, str_len) \<Rightarrow>
          (let raw_str = slice data (string_base + str_off) (string_base + str_off + str_len);
               entry = \<lparr>text_str = decode_bytes c raw_str,
                        sound_resref = res,
                        flags = int fl,
                        volume_variance = int vol_var,
                        pitch_variance = int pitch_var\<rparr>
           in case parse_entries c data string_base (Suc i) k of
                Inl e \<Rightarrow> Inl e
              | Inr es \<Rightarrow> Inr (entry # es)))"

definition parse :: "codec \<Rightarrow> bytes \<Rightarrow> error + TlkFile" where
  "parse c data =
     (case unpack_from_HDR_FMT data 0 of
        Inl e \<Rightarrow> Inl e
      | Inr (sig, ver, lang_id, num_entries, str_offset) \<Rightarrow>
          if sig \<noteq> TLK_SIGNATURE then Inl ValueError
          else if ver \<noteq> TLK_VERSION then Inl ValueError
          else (case parse_entries c data str_offset 0 num_entries of
                  Inl e \<Rightarrow> Inl e
                | Inr es \<Rightarrow> Inr \<lparr>language_id = int lang_id, entries = es\<rparr>))"

section \<open>TlkFile.to\_bytes\<close>

text \<open>The first loop: every text encoded.\<close>

definition encoded_strings :: "codec \<Rightarrow> TlkFile \<Rightarrow> bytes list" where
  "encoded_strings c t = map (\<lambda>entry. encode_text c (text_str entry)) (entries t)"

text \<open>
  The second loop, on the pair \<open>(string_offsets, string_block)\<close>: the offset of a string
  is the length of the block before the string is appended.
\<close>

definition string_block_step :: "bytes \<Rightarrow> nat list \<times> bytes \<Rightarrow> nat list \<times> bytes" where
  "string_block_step s acc = (fst acc @ [length (snd acc)], snd acc @ s)"

definition string_layout :: "bytes list \<Rightarrow> nat list \<times> bytes" where
  "string_layout ss = fold string_block_step ss ([], [])"

text \<open>
  The body of the third loop, \<open>for i, entry in enumerate(self.entries)\<close>, given
  \<open>string_offsets[i]\<close> and \<open>len(encoded_strings[i])\<close>: the record packed for one entry.
\<close>

definition entry_table_step :: "TlkEntry \<Rightarrow> nat \<Rightarrow> nat \<Rightarrow> error + bytes" where
  "entry_table_step entry string_offset string_length =
     (let res = ljust 8 0 (take 8 (sound_resref entry));
          fl = (if text_str entry \<noteq> [] then flags entry OR FLAG_TEXT
                else flags entry AND NOT FLAG_TEXT)
      in pack_ENTRY_FMT fl res (volume_variance entry) (pitch_variance entry)
           (int string_offset) (int string_length))"

text \<open>
  The third loop. The lists of offsets and of encoded strings are as long as the list of
  entries, so the reads at \<open>i\<close> are in range. A \<open>struct.error\<close> ends the call.
\<close>

fun entry_table_loop :: "nat list \<Rightarrow> bytes list \<Rightarrow> nat \<Rightarrow> TlkEntry list \<Rightarrow> error + bytes" where
  "entry_table_loop string_offsets encs i [] = Inr []"
| "entry_table_loop string_offsets encs i (entry # rest) =
     (case entry_table_step entry (string_offsets ! i) (length (encs ! i)) of
        Inl e \<Rightarrow> Inl e
      | Inr r \<Rightarrow>
          (case entry_table_loop string_offsets encs (Suc i) rest of
             Inl e \<Rightarrow> Inl e
           | Inr table \<Rightarrow> Inr (r @ table)))"

definition to_bytes :: "codec \<Rightarrow> TlkFile \<Rightarrow> error + bytes" where
  "to_bytes c t =
     (let encs = encoded_strings c t;
          string_offsets = fst (string_layout encs);
          string_block = snd (string_layout encs);
          num_entries = length (entries t);
          str_offset = HDR_SIZE + num_entries * ENTRY_SIZE
      in case pack_HDR_FMT TLK_SIGNATURE TLK_VERSION (language_id t) (int num_entries) (int str_offset) of
           Inl e \<Rightarrow> Inl e
         | Inr header \<Rightarrow>
             (case entry_table_loop string_offsets encs 0 (entries t) of
                Inl e \<Rightarrow> Inl e
              | Inr entry_table \<Rightarrow> Inr (header @ entry_table @ string_block)))"

section \<open>The cp1252 codec\<close>

text \<open>
  The default of the \<open>encoding\<close> argument, from Python's standard library: bytes below
  0x80 and from 0xA0 on are their own code points, the table gives the bytes between;
  the five bytes missing from it decode to U+FFFD and a character without a byte encodes
  to a question mark, as \<open>errors='replace'\<close> asks.
\<close>

definition cp1252_table :: "(nat \<times> nat) list" where
  "cp1252_table =
     [(0x80, 0x20AC), (0x82, 0x201A), (0x83, 0x0192), (0x84, 0x201E), (0x85, 0x2026),
      (0x86, 0x2020), (0x87, 0x2021), (0x88, 0x02C6), (0x89, 0x2030), (0x8A, 0x0160),
      (0x8B, 0x2039), (0x8C, 0x0152), (0x8E, 0x017D), (0x91, 0x2018), (0x92, 0x2019),
      (0x93, 0x201C), (0x94, 0x201D), (0x95, 0x2022), (0x96, 0x2013), (0x97, 0x2014),
      (0x98, 0x02DC), (0x99, 0x2122), (0x9A, 0x0161), (0x9B, 0x203A), (0x9C, 0x0153),
      (0x9E, 0x017E), (0x9F, 0x0178)]"

definition cp1252_decode_byte :: "byte \<Rightarrow> nat" where
  "cp1252_decode_byte b =
     (if unat b < 0x80 \<or> 0xA0 \<le> unat b then unat b
      else case map_of cp1252_table (unat b) of Some u \<Rightarrow> u | None \<Rightarrow> 0xFFFD)"

definition cp1252_encode_char :: "nat \<Rightarrow> byte" where
  "cp1252_encode_char u =
     (if u < 0x80 \<or> (0xA0 \<le> u \<and> u < 0x100) then of_nat u
      else case map_of (map (\<lambda>(b, v). (v, b)) cp1252_table) u of
             Some b \<Rightarrow> of_nat b
           | None \<Rightarrow> 0x3F)"

definition cp1252 :: codec where
  "cp1252 = \<lparr>encode_text = map cp1252_encode_char, decode_bytes = map cp1252_decode_byte\<rparr>"

section \<open>An example table\<close>

text \<open>
  A table of two entries used to evaluate the codec: a text of two non-ASCII characters
  with flags that leave bit 0 unset and a resref of 2 bytes, and an empty text with bit 0
  set and a resref of 9 bytes; and the 72 bytes \<open>to_bytes\<close> gives for it with cp1252.
\<close>

definition example_table :: TlkFile where
  "example_table = \<lparr>language_id = 1, entries =
     [\<lparr>text_str = [0xE4, 0x20AC], sound_resref = [0x41, 0x42], flags = 6,
       volume_variance = 7, pitch_variance = 9\<rparr>,
      \<lparr>text_str = [], sound_resref = [1, 2, 3, 4, 5, 6, 7, 8, 9], flags = 1,
       volume_variance = 0, pitch_variance = 0\<rparr>]\<rparr>"

definition example_bytes :: bytes where
  "example_bytes =
     [0x54, 0x4C, 0x4B, 0x20, 0x56, 0x31, 0x20, 0x20, 1, 0, 2, 0, 0, 0, 70, 0, 0, 0,
      7, 0, 0x41, 0x42, 0, 0, 0, 0, 0, 0, 7, 0, 0, 0, 9, 0, 0, 0, 0, 0, 0, 0, 2, 0, 0, 0,
      0, 0, 1, 2, 3, 4, 5, 6, 7, 8, 0, 0, 0, 0, 0, 0, 0, 0, 2, 0, 0, 0, 0, 0, 0, 0,
      0xE4, 0x80]"

section \<open>Properties of merge\_tlks\<close>

lemma fst_merge_step:
  "fst (merge_step p s sep sw i acc) = fst acc @ [merged_entry (entries p ! i) (entries s ! i) sep sw]"
  by (simp add: merge_step_def merged_entry_def Let_def)

lemma fst_fold_merge_step:
  "fst (fold (merge_step p s sep sw) is acc) =
     fst acc @ map (\<lambda>i. merged_entry (entries p ! i) (entries s ! i) sep sw) is"
  by (induction "is" arbitrary: acc) (simp_all add: fst_merge_step)

lemma merge_tlks_entries:
  "entries (snd (merge_tlks p s sep sw)) =
     map (\<lambda>i. merged_entry (entries p ! i) (entries s ! i) sep sw)
       [0..<min (length (entries p)) (length (entries s))]"
  by (simp add: merge_tlks_def Let_def fst_fold_merge_step)

lemma merge_tlks_nth:
  assumes "i < length (entries p)" "i < length (entries s)"
  shows "entries (snd (merge_tlks p s sep sw)) ! i = merged_entry (entries p ! i) (entries s ! i) sep sw"
  using assms by (simp add: merge_tlks_entries)

lemma all_dropWhile_iff: "(\<forall>x\<in>set (dropWhile P xs). P x) \<longleftrightarrow> (\<forall>x\<in>set xs. P x)"
  by (induction xs) auto

lemma strip_empty_iff: "strip s = [] \<longleftrightarrow> (\<forall>c\<in>set s. isspace c)"
  by (simp add: strip_def dropWhile_eq_Nil_conv all_dropWhile_iff)

lemma strip_nonempty_iff: "strip s \<noteq> [] \<longleftrightarrow> (\<exists>c\<in>set s. \<not> isspace c)"
  by (simp add: strip_empty_iff)

lemma clear_bit0: "\<not> bit (f AND NOT FLAG_TEXT) 0"
  by (simp add: FLAG_TEXT_def bit_and_iff bit_not_iff)

lemma set_bit0: "bit (f OR FLAG_TEXT) 0"
  by (simp add: FLAG_TEXT_def bit_or_iff)

lemma clear_bit0_other: "0 < n \<Longrightarrow> bit (f AND NOT FLAG_TEXT) n = bit f n"
  by (simp add: FLAG_TEXT_def bit_and_iff bit_not_iff bit_1_iff)

lemma set_bit0_other: "0 < n \<Longrightarrow> bit (f OR FLAG_TEXT) n = bit f n"
  by (simp add: FLAG_TEXT_def bit_or_iff bit_1_iff)

lemma merge_tlks_printed:
  "fst (merge_tlks p s sep sw) =
     (if length (entries p) \<noteq> length (entries s)
      then [CountMismatchWarning (length (entries p)) (length (entries s))] else []) @
     [MergedSummary
        (total (snd (fold (merge_step p s sep sw) [0..<min (length (entries p)) (length (entries s))]
           ([], \<lparr>total = min (length (entries p)) (length (entries s)), combined = 0, kept = 0, empty_cnt = 0\<rparr>))))
        (combined (snd (fold (merge_step p s sep sw) [0..<min (length (entries p)) (length (entries s))]
           ([], \<lparr>total = min (length (entries p)) (length (entries s)), combined = 0, kept = 0, empty_cnt = 0\<rparr>))))
        (kept (snd (fold (merge_step p s sep sw) [0..<min (length (entries p)) (length (entries s))]
           ([], \<lparr>total = min (length (entries p)) (length (entries s)), combined = 0, kept = 0, empty_cnt = 0\<rparr>))))
        (empty_cnt (snd (fold (merge_step p s sep sw) [0..<min (length (entries p)) (length (entries s))]
           ([], \<lparr>total = min (length (entries p)) (length (entries s)), combined = 0, kept = 0, empty_cnt = 0\<rparr>))))]"
  by (simp add: merge_tlks_def Let_def)

lemma merge_tlks_language_id: "language_id (snd (merge_tlks p s sep sw)) = language_id p"
  by (simp add: merge_tlks_def Let_def)

text \<open>
  Claim C7. For every index i present in both tables, the merged entry at i follows the
  decision table on the stripped texts of the two entries at i: both empty gives the
  primary entry with empty text and bit 0 of the flags cleared; a non-empty primary text
  with an empty or equal secondary text gives the primary entry unchanged; an empty
  primary text with a non-empty secondary text gives the primary entry with the secondary
  text; two different non-empty texts give the primary entry with the text
  primary + separator + secondary (secondary + separator + primary with swap) and bit 0
  set. So, at every index: ("Hallo Welt", "Hello World") with separator "\n---\n" merges
  to "Hallo Welt\n---\nHello World", and with swap to "Hello World\n---\nHallo Welt";
  ("Nur Prim[U+00E4]r", "") merges to "Nur Prim[U+00E4]r"; ("Gleicher Text",
  "Gleicher Text") merges to "Gleicher Text"; ("", "") merges to an entry with empty text
  and bit 0 of the flags cleared.
\<close>

theorem merge_decision_table:
  assumes "i < length (entries p)" and "i < length (entries s)"
  shows "(strip (text_str (entries p ! i)) = [] \<and> strip (text_str (entries s ! i)) = []
            \<longrightarrow> entries (snd (merge_tlks p s sep sw)) ! i
                  = (entries p ! i)\<lparr>text_str := [], flags := flags (entries p ! i) AND NOT FLAG_TEXT\<rparr>)
       \<and> (strip (text_str (entries p ! i)) \<noteq> []
            \<and> (strip (text_str (entries s ! i)) = []
                \<or> strip (text_str (entries p ! i)) = strip (text_str (entries s ! i)))
            \<longrightarrow> entries (snd (merge_tlks p s sep sw)) ! i = entries p ! i)
       \<and> (strip (text_str (entries p ! i)) = [] \<and> strip (text_str (entries s ! i)) \<noteq> []
            \<longrightarrow> entries (snd (merge_tlks p s sep sw)) ! i
                  = (entries p ! i)\<lparr>text_str := text_str (entries s ! i)\<rparr>)
       \<and> (strip (text_str (entries p ! i)) \<noteq> [] \<and> strip (text_str (entries s ! i)) \<noteq> []
            \<and> strip (text_str (entries p ! i)) \<noteq> strip (text_str (entries s ! i))
            \<longrightarrow> entries (snd (merge_tlks p s sep sw)) ! i
                  = (entries p ! i)\<lparr>text_str :=
                        (if sw then text_str (entries s ! i) @ sep @ text_str (entries p ! i)
                         else text_str (entries p ! i) @ sep @ text_str (entries s ! i)),
                      flags := flags (entries p ! i) OR FLAG_TEXT\<rparr>)
       \<and> (text_str (entries p ! i) = str ''Hallo Welt'' \<and> text_str (entries s ! i) = str ''Hello World''
            \<and> sep = [0x0A] @ str ''---'' @ [0x0A] \<and> \<not> sw
            \<longrightarrow> text_str (entries (snd (merge_tlks p s sep sw)) ! i)
                  = str ''Hallo Welt'' @ [0x0A] @ str ''---'' @ [0x0A] @ str ''Hello World'')
       \<and> (text_str (entries p ! i) = str ''Hallo Welt'' \<and> text_str (entries s ! i) = str ''Hello World''
            \<and> sep = [0x0A] @ str ''---'' @ [0x0A] \<and> sw
            \<longrightarrow> text_str (entries (snd (merge_tlks p s sep sw)) ! i)
                  = str ''Hello World'' @ [0x0A] @ str ''---'' @ [0x0A] @ str ''Hallo Welt'')
       \<and> (text_str (entries p ! i) = str ''Nur Prim'' @ [0xE4] @ str ''r'' \<and> text_str (entries s ! i) = []
            \<longrightarrow> text_str (entries (snd (merge_tlks p s sep sw)) ! i) = str ''Nur Prim'' @ [0xE4] @ str ''r'')
       \<and> (text_str (entries p ! i) = str ''Gleicher Text'' \<and> text_str (entries s ! i) = str ''Gleicher Text''
            \<longrightarrow> text_str (entries (snd (merge_tlks p s sep sw)) ! i) = str ''Gleicher Text'')
       \<and> (text_str (entries p ! i) = [] \<and> text_str (entries s ! i) = []
            \<longrightarrow> text_str (entries (snd (merge_tlks p s sep sw)) ! i) = []
              \<and> \<not> bit (flags (entries (snd (merge_tlks p s sep sw)) ! i)) 0)"
proof -
  let ?P = "text_str (entries p ! i)" and ?S = "text_str (entries s ! i)"
  let ?M = "entries (snd (merge_tlks p s sep sw)) ! i"
  have m: "?M = merged_entry (entries p ! i) (entries s ! i) sep sw"
    by (rule merge_tlks_nth [OF assms])
  have b1: "?M = (entries p ! i)\<lparr>text_str := [], flags := flags (entries p ! i) AND NOT FLAG_TEXT\<rparr>"
    if "strip ?P = []" "strip ?S = []"
    using that by (simp add: m merged_entry_def)
  have b2: "?M = entries p ! i"
    if "strip ?P \<noteq> []" "strip ?S = [] \<or> strip ?P = strip ?S"
    using that by (auto simp: m merged_entry_def)
  have b3: "?M = (entries p ! i)\<lparr>text_str := ?S\<rparr>"
    if "strip ?P = []" "strip ?S \<noteq> []"
    using that by (auto simp: m merged_entry_def)
  have b4: "?M = (entries p ! i)\<lparr>text_str := (if sw then ?S @ sep @ ?P else ?P @ sep @ ?S),
                      flags := flags (entries p ! i) OR FLAG_TEXT\<rparr>"
    if "strip ?P \<noteq> []" "strip ?S \<noteq> []" "strip ?P \<noteq> strip ?S"
    using that by (simp add: m merged_entry_def)
  have hallo: "strip (str ''Hallo Welt'') = str ''Hallo Welt''"
    and hello: "strip (str ''Hello World'') = str ''Hello World''"
    and nur: "strip (str ''Nur Prim'' @ [0xE4] @ str ''r'') = str ''Nur Prim'' @ [0xE4] @ str ''r''"
    and gleich: "strip (str ''Gleicher Text'') = str ''Gleicher Text''"
    and leer: "strip [] = []"
    by (simp_all add: strip_def str_def isspace_def)
  have ne: "str ''Hallo Welt'' \<noteq> str ''Hello World''" "str ''Hallo Welt'' \<noteq> []"
    "str ''Hello World'' \<noteq> []" "str ''Nur Prim'' @ [0xE4] @ str ''r'' \<noteq> []"
    "str ''Gleicher Text'' \<noteq> []"
    by (simp_all add: str_def)
  have s1: "text_str ?M = str ''Hallo Welt'' @ [0x0A] @ str ''---'' @ [0x0A] @ str ''Hello World''"
    if "?P = str ''Hallo Welt''" "?S = str ''Hello World''" "sep = [0x0A] @ str ''---'' @ [0x0A]" "\<not> sw"
  proof -
    have "strip ?P \<noteq> []" "strip ?S \<noteq> []" "strip ?P \<noteq> strip ?S"
      unfolding that(1,2) hallo hello by (rule ne)+
    from b4 [OF this] show ?thesis
      by (simp only: that) simp
  qed
  have s2: "text_str ?M = str ''Hello World'' @ [0x0A] @ str ''---'' @ [0x0A] @ str ''Hallo Welt''"
    if "?P = str ''Hallo Welt''" "?S = str ''Hello World''" "sep = [0x0A] @ str ''---'' @ [0x0A]" "sw"
  proof -
    have "strip ?P \<noteq> []" "strip ?S \<noteq> []" "strip ?P \<noteq> strip ?S"
      unfolding that(1,2) hallo hello by (rule ne)+
    from b4 [OF this] show ?thesis
      by (simp only: that) simp
  qed
  have s3: "text_str ?M = str ''Nur Prim'' @ [0xE4] @ str ''r''"
    if "?P = str ''Nur Prim'' @ [0xE4] @ str ''r''" "?S = []"
  proof -
    have "strip ?P \<noteq> []" "strip ?S = [] \<or> strip ?P = strip ?S"
      unfolding that nur leer by (simp_all only: ne simp_thms)
    from b2 [OF this] show ?thesis
      by (simp only: that)
  qed
  have s4: "text_str ?M = str ''Gleicher Text''"
    if "?P = str ''Gleicher Text''" "?S = str ''Gleicher Text''"
  proof -
    have "strip ?P \<noteq> []" "strip ?S = [] \<or> strip ?P = strip ?S"
      unfolding that gleich by (simp_all only: ne simp_thms)
    from b2 [OF this] show ?thesis
      by (simp only: that)
  qed
  have s5: "text_str ?M = [] \<and> \<not> bit (flags ?M) 0"
    if "?P = []" "?S = []"
  proof -
    have "strip ?P = []" "strip ?S = []"
      unfolding that by (rule leer)+
    from b1 [OF this] show ?thesis
      by (simp add: clear_bit0)
  qed
  from b1 b2 b3 b4 s1 s2 s3 s4 s5 show ?thesis
    by blast
qed

text \<open>
  The two tables of the self-test, at each of their four indices and with swap at index
  0; and, with the tables exchanged, index 3, where the primary text is empty and the
  secondary text is kept.
\<close>

theorem merge_decision_table_witness:
  "length (entries test_primary) = 4 \<and> length (entries test_secondary) = 4
   \<and> text_str (entries (snd (merge_tlks test_primary test_secondary ([0x0A] @ str ''---'' @ [0x0A]) False)) ! 0)
       = str ''Hallo Welt'' @ [0x0A] @ str ''---'' @ [0x0A] @ str ''Hello World''
   \<and> text_str (entries (snd (merge_tlks test_primary test_secondary ([0x0A] @ str ''---'' @ [0x0A]) True)) ! 0)
       = str ''Hello World'' @ [0x0A] @ str ''---'' @ [0x0A] @ str ''Hallo Welt''
   \<and> entries (snd (merge_tlks test_primary test_secondary ([0x0A] @ str ''---'' @ [0x0A]) False)) ! 1
       = test_entry []
   \<and> entries (snd (merge_tlks test_primary test_secondary ([0x0A] @ str ''---'' @ [0x0A]) False)) ! 2
       = test_entry (str ''Gleicher Text'')
   \<and> entries (snd (merge_tlks test_primary test_secondary ([0x0A] @ str ''---'' @ [0x0A]) False)) ! 3
       = test_entry (str ''Nur Prim'' @ [0xE4] @ str ''r'')
   \<and> entries (snd (merge_tlks test_secondary test_primary ([0x0A] @ str ''---'' @ [0x0A]) False)) ! 3
       = (test_entry [])\<lparr>text_str := str ''Nur Prim'' @ [0xE4] @ str ''r''\<rparr>"
proof -
  let ?sep = "[0x0A] @ str ''---'' @ [0x0A]"
  have l: "length (entries test_primary) = 4" "length (entries test_secondary) = 4"
    by (simp_all add: test_primary_def test_secondary_def)
  have i: "0 < length (entries test_primary)" "0 < length (entries test_secondary)"
    "1 < length (entries test_primary)" "1 < length (entries test_secondary)"
    "2 < length (entries test_primary)" "2 < length (entries test_secondary)"
    "3 < length (entries test_primary)" "3 < length (entries test_secondary)"
    by (simp_all add: l)
  have e: "entries test_primary ! 0 = test_entry (str ''Hallo Welt'')"
    "entries test_secondary ! 0 = test_entry (str ''Hello World'')"
    "entries test_primary ! 1 = test_entry []" "entries test_secondary ! 1 = test_entry []"
    "entries test_primary ! 2 = test_entry (str ''Gleicher Text'')"
    "entries test_secondary ! 2 = test_entry (str ''Gleicher Text'')"
    "entries test_primary ! 3 = test_entry (str ''Nur Prim'' @ [0xE4] @ str ''r'')"
    "entries test_secondary ! 3 = test_entry []"
    by (simp_all add: test_primary_def test_secondary_def)
  have t: "text_str (test_entry x) = x" for x
    by (simp add: test_entry_def)
  have s: "strip (str ''Hallo Welt'') = str ''Hallo Welt''"
    "strip (str ''Hello World'') = str ''Hello World''"
    "strip (str ''Nur Prim'' @ [0xE4] @ str ''r'') = str ''Nur Prim'' @ [0xE4] @ str ''r''"
    "strip (str ''Gleicher Text'') = str ''Gleicher Text''"
    "strip [] = []"
    by (simp_all add: strip_def str_def isspace_def)
  have ne: "str ''Hallo Welt'' \<noteq> str ''Hello World''" "str ''Hallo Welt'' \<noteq> []"
    "str ''Hello World'' \<noteq> []" "str ''Nur Prim'' @ [0xE4] @ str ''r'' \<noteq> []"
    "str ''Gleicher Text'' \<noteq> []"
    by (simp_all add: str_def)
  note tx = e [THEN arg_cong [of _ _ text_str], unfolded t]
  have a0: "text_str (entries (snd (merge_tlks test_primary test_secondary ?sep False)) ! 0)
       = str ''Hallo Welt'' @ [0x0A] @ str ''---'' @ [0x0A] @ str ''Hello World''"
    using merge_decision_table [OF i(1,2), of ?sep False] tx(1,2) by blast
  have a0': "text_str (entries (snd (merge_tlks test_primary test_secondary ?sep True)) ! 0)
       = str ''Hello World'' @ [0x0A] @ str ''---'' @ [0x0A] @ str ''Hallo Welt''"
    using merge_decision_table [OF i(1,2), of ?sep True] tx(1,2) by blast
  have "strip (text_str (entries test_primary ! 1)) = []"
    "strip (text_str (entries test_secondary ! 1)) = []"
    by (simp_all only: tx s)
  with merge_decision_table [OF i(3,4), of ?sep False]
  have "entries (snd (merge_tlks test_primary test_secondary ?sep False)) ! 1
      = (entries test_primary ! 1)\<lparr>text_str := [], flags := flags (entries test_primary ! 1) AND NOT FLAG_TEXT\<rparr>"
    by blast
  then have a1: "entries (snd (merge_tlks test_primary test_secondary ?sep False)) ! 1 = test_entry []"
    by (simp only: e) (simp add: test_entry_def FLAG_TEXT_def)
  have "strip (text_str (entries test_primary ! 2)) \<noteq> []"
    "strip (text_str (entries test_primary ! 2)) = strip (text_str (entries test_secondary ! 2))"
    by (simp_all only: tx s ne simp_thms)
  with merge_decision_table [OF i(5,6), of ?sep False]
  have "entries (snd (merge_tlks test_primary test_secondary ?sep False)) ! 2 = entries test_primary ! 2"
    by blast
  then have a2: "entries (snd (merge_tlks test_primary test_secondary ?sep False)) ! 2
       = test_entry (str ''Gleicher Text'')"
    by (simp only: e)
  have p3: "strip (text_str (entries test_primary ! 3)) \<noteq> []"
    "strip (text_str (entries test_secondary ! 3)) = []"
    by (simp_all only: tx s ne simp_thms)
  with merge_decision_table [OF i(7,8), of ?sep False]
  have "entries (snd (merge_tlks test_primary test_secondary ?sep False)) ! 3 = entries test_primary ! 3"
    by blast
  then have a3: "entries (snd (merge_tlks test_primary test_secondary ?sep False)) ! 3
       = test_entry (str ''Nur Prim'' @ [0xE4] @ str ''r'')"
    by (simp only: e)
  from merge_decision_table [OF i(8,7), of ?sep False] p3
  have "entries (snd (merge_tlks test_secondary test_primary ?sep False)) ! 3
      = (entries test_secondary ! 3)\<lparr>text_str := text_str (entries test_primary ! 3)\<rparr>"
    by blast
  then have a4: "entries (snd (merge_tlks test_secondary test_primary ?sep False)) ! 3
       = (test_entry [])\<lparr>text_str := str ''Nur Prim'' @ [0xE4] @ str ''r''\<rparr>"
    by (simp only: e t)
  from l a0 a0' a1 a2 a3 a4 show ?thesis by blast
qed

text \<open>
  Claim C8. When the entry counts differ, \<open>merge_tlks\<close> returns (it has no failing
  branch), the warning with both counts is among what it printed, the merged table has
  as many entries as the shorter table, and the result is the one for the two tables cut
  to that length: no index from the minimum on is read.
\<close>

theorem merge_count_mismatch:
  assumes "length (entries p) \<noteq> length (entries s)"
  shows "CountMismatchWarning (length (entries p)) (length (entries s)) \<in> set (fst (merge_tlks p s sep sw))
    \<and> length (entries (snd (merge_tlks p s sep sw))) = min (length (entries p)) (length (entries s))
    \<and> snd (merge_tlks p s sep sw) =
        snd (merge_tlks
          (p\<lparr>entries := take (min (length (entries p)) (length (entries s))) (entries p)\<rparr>)
          (s\<lparr>entries := take (min (length (entries p)) (length (entries s))) (entries s)\<rparr>) sep sw)"
proof -
  let ?n = "min (length (entries p)) (length (entries s))"
  let ?p = "p\<lparr>entries := take ?n (entries p)\<rparr>" and ?s = "s\<lparr>entries := take ?n (entries s)\<rparr>"
  have w: "CountMismatchWarning (length (entries p)) (length (entries s)) \<in> set (fst (merge_tlks p s sep sw))"
    using assms by (simp add: merge_tlks_printed)
  have l: "length (entries (snd (merge_tlks p s sep sw))) = ?n"
    by (simp add: merge_tlks_entries)
  have "entries (snd (merge_tlks p s sep sw)) = entries (snd (merge_tlks ?p ?s sep sw))"
    by (simp add: merge_tlks_entries)
  moreover have "language_id (snd (merge_tlks p s sep sw)) = language_id (snd (merge_tlks ?p ?s sep sw))"
    by (simp add: merge_tlks_language_id)
  ultimately have "snd (merge_tlks p s sep sw) = snd (merge_tlks ?p ?s sep sw)"
    by simp
  with w l show ?thesis by simp
qed

text \<open>
  Claim C10. The merged table has the language id of the primary table, and every merged
  entry has the sound resref, volume variance and pitch variance of the primary entry at
  its index, whichever branch produced its text.
\<close>

theorem merge_metadata_from_primary:
  "language_id (snd (merge_tlks p s sep sw)) = language_id p
   \<and> (\<forall>i < length (entries (snd (merge_tlks p s sep sw))).
        sound_resref (entries (snd (merge_tlks p s sep sw)) ! i) = sound_resref (entries p ! i)
      \<and> volume_variance (entries (snd (merge_tlks p s sep sw)) ! i) = volume_variance (entries p ! i)
      \<and> pitch_variance (entries (snd (merge_tlks p s sep sw)) ! i) = pitch_variance (entries p ! i))"
  by (simp add: merge_tlks_language_id merge_tlks_entries merged_entry_def)

text \<open>
  Claim C9. Emptiness and equality are decided on the stripped texts: two texts of
  whitespace only merge to the empty text; a primary text with a non-whitespace
  character is kept unstripped when the secondary text is whitespace only, or when both
  texts are equal after stripping; the secondary text is kept unstripped when the primary
  text is whitespace only and the secondary is not.
\<close>

theorem merge_compares_stripped_texts:
  assumes "i < length (entries p)" and "i < length (entries s)"
  shows "((\<forall>c\<in>set (text_str (entries p ! i)). isspace c) \<and> (\<forall>c\<in>set (text_str (entries s ! i)). isspace c)
            \<longrightarrow> text_str (entries (snd (merge_tlks p s sep sw)) ! i) = [])
       \<and> ((\<exists>c\<in>set (text_str (entries p ! i)). \<not> isspace c) \<and> (\<forall>c\<in>set (text_str (entries s ! i)). isspace c)
            \<longrightarrow> text_str (entries (snd (merge_tlks p s sep sw)) ! i) = text_str (entries p ! i))
       \<and> ((\<exists>c\<in>set (text_str (entries p ! i)). \<not> isspace c) \<and> strip (text_str (entries p ! i)) = strip (text_str (entries s ! i))
            \<longrightarrow> text_str (entries (snd (merge_tlks p s sep sw)) ! i) = text_str (entries p ! i))
       \<and> ((\<forall>c\<in>set (text_str (entries p ! i)). isspace c) \<and> (\<exists>c\<in>set (text_str (entries s ! i)). \<not> isspace c)
            \<longrightarrow> text_str (entries (snd (merge_tlks p s sep sw)) ! i) = text_str (entries s ! i))"
  using assms by (simp add: merge_tlks_entries merged_entry_def flip: strip_empty_iff strip_nonempty_iff)


text \<open>A primary table of two entries against a secondary table of one.\<close>

theorem merge_count_mismatch_witness:
  "length (entries \<lparr>language_id = 3, entries = [test_entry (str ''Hallo Welt''), test_entry (str ''Ja'')]\<rparr>)
     \<noteq> length (entries \<lparr>language_id = 5, entries = [test_entry (str ''Hello World'')]\<rparr>)
   \<and> CountMismatchWarning 2 1 \<in> set (fst (merge_tlks
        \<lparr>language_id = 3, entries = [test_entry (str ''Hallo Welt''), test_entry (str ''Ja'')]\<rparr>
        \<lparr>language_id = 5, entries = [test_entry (str ''Hello World'')]\<rparr> [0x0A] False))
   \<and> length (entries (snd (merge_tlks
        \<lparr>language_id = 3, entries = [test_entry (str ''Hallo Welt''), test_entry (str ''Ja'')]\<rparr>
        \<lparr>language_id = 5, entries = [test_entry (str ''Hello World'')]\<rparr> [0x0A] False))) = 1"
  using merge_count_mismatch [of
      "\<lparr>language_id = 3, entries = [test_entry (str ''Hallo Welt''), test_entry (str ''Ja'')]\<rparr>"
      "\<lparr>language_id = 5, entries = [test_entry (str ''Hello World'')]\<rparr>" "[0x0A]" False]
  by (simp add: merge_tlks_printed merge_tlks_entries)

text \<open>The secondary text is kept here, and the other fields are still the primary's.\<close>

theorem merge_metadata_from_primary_witness:
  "language_id (snd (merge_tlks
      \<lparr>language_id = 3, entries = [\<lparr>text_str = [], sound_resref = [1, 2], flags = 7,
                                     volume_variance = 8, pitch_variance = 9\<rparr>]\<rparr>
      \<lparr>language_id = 5, entries = [\<lparr>text_str = str ''Hello'', sound_resref = [3], flags = 1,
                                     volume_variance = 4, pitch_variance = 6\<rparr>]\<rparr> [0x0A] False)) = 3
   \<and> entries (snd (merge_tlks
      \<lparr>language_id = 3, entries = [\<lparr>text_str = [], sound_resref = [1, 2], flags = 7,
                                     volume_variance = 8, pitch_variance = 9\<rparr>]\<rparr>
      \<lparr>language_id = 5, entries = [\<lparr>text_str = str ''Hello'', sound_resref = [3], flags = 1,
                                     volume_variance = 4, pitch_variance = 6\<rparr>]\<rparr> [0x0A] False))
     = [\<lparr>text_str = str ''Hello'', sound_resref = [1, 2], flags = 7,
         volume_variance = 8, pitch_variance = 9\<rparr>]"
  using merge_metadata_from_primary [of
      "\<lparr>language_id = 3, entries = [\<lparr>text_str = [], sound_resref = [1, 2], flags = 7,
                                     volume_variance = 8, pitch_variance = 9\<rparr>]\<rparr>"
      "\<lparr>language_id = 5, entries = [\<lparr>text_str = str ''Hello'', sound_resref = [3], flags = 1,
                                     volume_variance = 4, pitch_variance = 6\<rparr>]\<rparr>" "[0x0A]" False]
  by (simp add: merge_tlks_entries merged_entry_def strip_def str_def isspace_def)

text \<open>One pair of texts for each of the four cases.\<close>

theorem merge_compares_stripped_texts_witness:
  "(0::nat) < length (entries \<lparr>language_id = 0, entries = [test_entry (str ''  '')]\<rparr>)
   \<and> text_str (entries (snd (merge_tlks
        \<lparr>language_id = 0, entries = [test_entry (str ''  '')]\<rparr>
        \<lparr>language_id = 0, entries = [test_entry [0x09]]\<rparr> [0x0A] False)) ! 0) = []
   \<and> text_str (entries (snd (merge_tlks
        \<lparr>language_id = 0, entries = [test_entry (str ''Hi '')]\<rparr>
        \<lparr>language_id = 0, entries = [test_entry (str '' '')]\<rparr> [0x0A] False)) ! 0) = str ''Hi ''
   \<and> text_str (entries (snd (merge_tlks
        \<lparr>language_id = 0, entries = [test_entry (str '' Hi'')]\<rparr>
        \<lparr>language_id = 0, entries = [test_entry (str ''Hi '')]\<rparr> [0x0A] False)) ! 0) = str '' Hi''
   \<and> text_str (entries (snd (merge_tlks
        \<lparr>language_id = 0, entries = [test_entry (str '' '')]\<rparr>
        \<lparr>language_id = 0, entries = [test_entry (str '' Yo '')]\<rparr> [0x0A] False)) ! 0) = str '' Yo ''"
  using merge_compares_stripped_texts [of 0
      "\<lparr>language_id = 0, entries = [test_entry (str ''  '')]\<rparr>"
      "\<lparr>language_id = 0, entries = [test_entry [0x09]]\<rparr>" "[0x0A]" False]
    merge_compares_stripped_texts [of 0
      "\<lparr>language_id = 0, entries = [test_entry (str ''Hi '')]\<rparr>"
      "\<lparr>language_id = 0, entries = [test_entry (str '' '')]\<rparr>" "[0x0A]" False]
    merge_compares_stripped_texts [of 0
      "\<lparr>language_id = 0, entries = [test_entry (str '' Hi'')]\<rparr>"
      "\<lparr>language_id = 0, entries = [test_entry (str ''Hi '')]\<rparr>" "[0x0A]" False]
    merge_compares_stripped_texts [of 0
      "\<lparr>language_id = 0, entries = [test_entry (str '' '')]\<rparr>"
      "\<lparr>language_id = 0, entries = [test_entry (str '' Yo '')]\<rparr>" "[0x0A]" False]
  by (simp add: test_entry_def strip_def str_def isspace_def)

section \<open>Properties of the codec\<close>

lemma unat_byte_of_nat: "unat (of_nat n :: byte) = n mod 256"
  by (simp add: unat_of_nat)

lemma split_low_byte: "n mod 256 + 256 * (n div 256) = (n::nat)"
  by simp

lemma le_nat_u16_le:
  assumes "n < 65536"
  shows "le_nat (u16_le n) = n"
proof -
  from assms have "n div 256 < 256"
    by (simp add: div_less_iff_less_mult)
  then have "n div 256 mod 256 = n div 256"
    by simp
  then show ?thesis
    by (simp add: u16_le_def unat_byte_of_nat)
qed

lemma le_nat_u32_le:
  assumes "n < 4294967296"
  shows "le_nat (u32_le n) = n"
proof -
  have d2: "n div 65536 = n div 256 div 256"
    by (simp add: div_mult2_eq [symmetric])
  have d3: "n div 16777216 = n div 256 div 256 div 256"
    by (simp add: div_mult2_eq [symmetric])
  from assms have "n div 16777216 < 256"
    by (simp add: div_less_iff_less_mult)
  then have top: "n div 256 div 256 div 256 mod 256 = n div 256 div 256 div 256"
    by (simp add: d3)
  have "le_nat (u32_le n) =
      n mod 256 + 256 * (n div 256 mod 256 + 256 * (n div 256 div 256 mod 256
        + 256 * (n div 256 div 256 div 256 mod 256)))"
    by (simp add: u32_le_def unat_byte_of_nat d2 d3)
  also have "\<dots> = n mod 256 + 256 * (n div 256 mod 256 + 256 * (n div 256 div 256 mod 256
        + 256 * (n div 256 div 256 div 256)))"
    by (simp only: top)
  also have "\<dots> = n mod 256 + 256 * (n div 256 mod 256 + 256 * (n div 256 div 256))"
    by (simp only: split_low_byte)
  also have "\<dots> = n mod 256 + 256 * (n div 256)"
    by (simp only: split_low_byte)
  also have "\<dots> = n"
    by (simp only: split_low_byte)
  finally show ?thesis .
qed

lemma length_u16_le: "length (u16_le n) = 2"
  by (simp add: u16_le_def)

lemma length_u32_le: "length (u32_le n) = 4"
  by (simp add: u32_le_def)

lemma length_pack_s: "length (pack_s n b) = n"
  by (simp add: pack_s_def)

lemma pack_s_exact: "length b = n \<Longrightarrow> pack_s n b = b"
  by (simp add: pack_s_def)

lemma length_resref: "length (ljust 8 0 (take 8 s)) = 8"
  by (simp add: ljust_def)

lemma ljust_take: "ljust 8 0 (take 8 s) = take 8 s @ replicate (8 - length s) 0"
  by (simp add: ljust_def min_def)


lemma pack_ENTRY_FMT_Inr:
  assumes "pack_ENTRY_FMT fl res vol pitch off len = Inr r"
  shows "r = u16_le (nat fl) @ pack_s 8 res @ u32_le (nat vol) @ u32_le (nat pitch)
             @ u32_le (nat off) @ u32_le (nat len)"
    and "0 \<le> fl \<and> fl < 65536"
    and "0 \<le> vol \<and> vol < 4294967296"
    and "0 \<le> pitch \<and> pitch < 4294967296"
    and "0 \<le> off \<and> off < 4294967296"
    and "0 \<le> len \<and> len < 4294967296"
  using assms by (auto simp: pack_ENTRY_FMT_def split: if_splits)

lemma length_pack_ENTRY_FMT:
  assumes "pack_ENTRY_FMT fl res vol pitch off len = Inr r"
  shows "length r = 26"
  by (simp add: pack_ENTRY_FMT_Inr(1) [OF assms] length_u16_le length_u32_le length_pack_s)

lemma unpack_row:
  assumes "length a = 2" "length b = 8" "length v = 4" "length p = 4" "length off = 4" "length l = 4"
  shows "unpack_from_ENTRY_FMT (pre @ (a @ b @ v @ p @ off @ l) @ post) (length pre)
         = Inr (le_nat a, b, le_nat v, le_nat p, le_nat off, le_nat l)"
  using assms by (simp add: unpack_from_ENTRY_FMT_def Let_def)

lemma unpack_pack_ENTRY_FMT:
  assumes "pack_ENTRY_FMT fl res vol pitch off len = Inr r"
  shows "unpack_from_ENTRY_FMT (pre @ r @ post) (length pre)
         = Inr (nat fl, pack_s 8 res, nat vol, nat pitch, nat off, nat len)"
proof -
  note p = pack_ENTRY_FMT_Inr [OF assms]
  have "unpack_from_ENTRY_FMT (pre @ r @ post) (length pre)
        = Inr (le_nat (u16_le (nat fl)), pack_s 8 res, le_nat (u32_le (nat vol)),
               le_nat (u32_le (nat pitch)), le_nat (u32_le (nat off)), le_nat (u32_le (nat len)))"
    unfolding p(1)
    by (rule unpack_row) (simp_all add: length_u16_le length_u32_le length_pack_s)
  moreover have "le_nat (u16_le (nat fl)) = nat fl"
    using p(2) by (intro le_nat_u16_le) arith
  moreover have "le_nat (u32_le (nat vol)) = nat vol"
    using p(3) by (intro le_nat_u32_le) arith
  moreover have "le_nat (u32_le (nat pitch)) = nat pitch"
    using p(4) by (intro le_nat_u32_le) arith
  moreover have "le_nat (u32_le (nat off)) = nat off"
    using p(5) by (intro le_nat_u32_le) arith
  moreover have "le_nat (u32_le (nat len)) = nat len"
    using p(6) by (intro le_nat_u32_le) arith
  ultimately show ?thesis by simp
qed

lemma pack_HDR_FMT_Inr:
  assumes "pack_HDR_FMT sig ver lang num off = Inr h"
  shows "h = pack_s 4 sig @ pack_s 4 ver @ u16_le (nat lang) @ u32_le (nat num) @ u32_le (nat off)"
    and "0 \<le> lang \<and> lang < 65536"
    and "0 \<le> num \<and> num < 4294967296"
    and "0 \<le> off \<and> off < 4294967296"
  using assms by (auto simp: pack_HDR_FMT_def split: if_splits)

lemma length_pack_HDR_FMT:
  assumes "pack_HDR_FMT sig ver lang num off = Inr h"
  shows "length h = 18"
  by (simp add: pack_HDR_FMT_Inr(1) [OF assms] length_u16_le length_u32_le length_pack_s)

lemma unpack_hdr_row:
  assumes "length a = 4" "length b = 4" "length l = 2" "length n = 4" "length off = 4"
  shows "unpack_from_HDR_FMT ((a @ b @ l @ n @ off) @ post) 0
         = Inr (a, b, le_nat l, le_nat n, le_nat off)"
  using assms by (simp add: unpack_from_HDR_FMT_def Let_def)

lemma unpack_pack_HDR_FMT:
  assumes "pack_HDR_FMT sig ver lang num off = Inr h"
  shows "unpack_from_HDR_FMT (h @ post) 0
         = Inr (pack_s 4 sig, pack_s 4 ver, nat lang, nat num, nat off)"
proof -
  note p = pack_HDR_FMT_Inr [OF assms]
  have "unpack_from_HDR_FMT (h @ post) 0
        = Inr (pack_s 4 sig, pack_s 4 ver, le_nat (u16_le (nat lang)),
               le_nat (u32_le (nat num)), le_nat (u32_le (nat off)))"
    unfolding p(1)
    by (rule unpack_hdr_row) (simp_all add: length_u16_le length_u32_le length_pack_s)
  moreover have "le_nat (u16_le (nat lang)) = nat lang"
    using p(2) by (intro le_nat_u16_le) arith
  moreover have "le_nat (u32_le (nat num)) = nat num"
    using p(3) by (intro le_nat_u32_le) arith
  moreover have "le_nat (u32_le (nat off)) = nat off"
    using p(4) by (intro le_nat_u32_le) arith
  ultimately show ?thesis by simp
qed


lemma fold_string_block_step:
  "fold string_block_step ss acc =
     (fst acc @ map (\<lambda>i. length (snd acc) + length (concat (take i ss))) [0..<length ss],
      snd acc @ concat ss)"
proof (induction ss arbitrary: acc)
  case Nil
  show ?case by simp
next
  case (Cons s ss)
  have u: "[0..<length (s # ss)] = 0 # map Suc [0..<length ss]"
    by (simp add: upt_conv_Cons map_Suc_upt del: upt_Suc)
  have "fold string_block_step (s # ss) acc = fold string_block_step ss (string_block_step s acc)"
    by simp
  also have "\<dots> = (fst (string_block_step s acc)
        @ map (\<lambda>i. length (snd (string_block_step s acc)) + length (concat (take i ss))) [0..<length ss],
      snd (string_block_step s acc) @ concat ss)"
    by (rule Cons.IH)
  also have "\<dots> = (fst acc @ map (\<lambda>i. length (snd acc) + length (concat (take i (s # ss)))) [0..<length (s # ss)],
      snd acc @ concat (s # ss))"
    unfolding u by (simp add: string_block_step_def comp_def)
  finally show ?case .
qed

lemma string_layout_eq:
  "string_layout ss = (map (\<lambda>i. length (concat (take i ss))) [0..<length ss], concat ss)"
  by (simp add: string_layout_def fold_string_block_step)

lemma string_offsets_nth:
  "i < length ss \<Longrightarrow> fst (string_layout ss) ! i = length (concat (take i ss))"
  by (simp add: string_layout_eq)

lemma concat_take_Suc:
  "i < length ss \<Longrightarrow> concat (take (Suc i) ss) = concat (take i ss) @ ss ! i"
  by (simp add: take_Suc_conv_app_nth)

lemma slice_concat:
  assumes "i < length ss"
  shows "take (length (ss ! i)) (drop (length (concat (take i ss))) (concat ss)) = ss ! i"
proof -
  have "concat ss = concat (take i ss) @ ss ! i @ concat (drop (Suc i) ss)"
    using assms by (metis append_take_drop_id concat_append Cons_nth_drop_Suc concat.simps(2))
  then have "drop (length (concat (take i ss))) (concat ss) = ss ! i @ concat (drop (Suc i) ss)"
    by (metis append_eq_conv_conj)
  then show ?thesis by simp
qed

lemma length_entry_table_step:
  "entry_table_step e off len = Inr r \<Longrightarrow> length r = 26"
  unfolding entry_table_step_def Let_def by (rule length_pack_ENTRY_FMT)

lemma entry_table_loop_Inr:
  assumes "entry_table_loop offs encs i es = Inr tbl"
  shows "length tbl = 26 * length es
       \<and> (\<forall>j < length es. entry_table_step (es ! j) (offs ! (i + j)) (length (encs ! (i + j)))
              = Inr (take 26 (drop (26 * j) tbl)))"
  using assms
proof (induction es arbitrary: i tbl)
  case Nil
  then show ?case by simp
next
  case (Cons e es)
  from Cons.prems obtain r table where
    r: "entry_table_step e (offs ! i) (length (encs ! i)) = Inr r" and
    t: "entry_table_loop offs encs (Suc i) es = Inr table" and
    tbl: "tbl = r @ table"
    by (auto split: sum.splits)
  have lr: "length r = 26"
    by (rule length_entry_table_step [OF r])
  note ih = Cons.IH [OF t]
  have "length tbl = 26 * length (e # es)"
    using ih lr tbl by simp
  moreover have "entry_table_step ((e # es) ! j) (offs ! (i + j)) (length (encs ! (i + j)))
              = Inr (take 26 (drop (26 * j) tbl))" if "j < length (e # es)" for j
  proof (cases j)
    case 0
    then show ?thesis using r lr tbl by simp
  next
    case (Suc j')
    with that have "j' < length es" by simp
    with ih have "entry_table_step (es ! j') (offs ! (Suc i + j')) (length (encs ! (Suc i + j')))
              = Inr (take 26 (drop (26 * j') table))"
      by blast
    moreover have "drop (26 * j) tbl = drop (26 * j') table"
      using Suc lr tbl by simp
    ultimately show ?thesis using Suc by simp
  qed
  ultimately show ?case by blast
qed


lemma to_bytes_Inr:
  assumes "to_bytes c t = Inr bs"
  obtains header table where
    "pack_HDR_FMT TLK_SIGNATURE TLK_VERSION (language_id t) (int (length (entries t)))
       (int (18 + length (entries t) * 26)) = Inr header"
    "entry_table_loop (fst (string_layout (encoded_strings c t))) (encoded_strings c t) 0 (entries t)
       = Inr table"
    "bs = header @ table @ concat (encoded_strings c t)"
  using assms
  by (auto simp: to_bytes_def Let_def HDR_SIZE_def ENTRY_SIZE_def string_layout_eq
           split: sum.splits)

lemma split_table_row:
  assumes "length tbl = 26 * n" "i < n"
  shows "tbl = take (26 * i) tbl @ take 26 (drop (26 * i) tbl) @ drop (26 * i + 26) tbl"
    and "length (take (26 * i) tbl) = 26 * i"
proof -
  show "tbl = take (26 * i) tbl @ take 26 (drop (26 * i) tbl) @ drop (26 * i + 26) tbl"
    by (metis append_take_drop_id drop_drop add.commute)
  show "length (take (26 * i) tbl) = 26 * i"
    using assms by simp
qed

lemma to_bytes_entry_step:
  assumes "to_bytes c t = Inr bs" and "i < length (entries t)"
  shows "\<exists>pre r post. bs = pre @ r @ post \<and> length pre = 18 + 26 * i
          \<and> entry_table_step (entries t ! i) (length (concat (take i (encoded_strings c t))))
               (length (encoded_strings c t ! i)) = Inr r"
proof -
  from assms(1) obtain header table where
    h: "pack_HDR_FMT TLK_SIGNATURE TLK_VERSION (language_id t) (int (length (entries t)))
       (int (18 + length (entries t) * 26)) = Inr header" and
    tb: "entry_table_loop (fst (string_layout (encoded_strings c t))) (encoded_strings c t) 0 (entries t)
       = Inr table" and
    bs: "bs = header @ table @ concat (encoded_strings c t)"
    by (rule to_bytes_Inr)
  note lp = entry_table_loop_Inr [OF tb]
  have len: "length table = 26 * length (entries t)"
    using lp by blast
  have li: "i < length (encoded_strings c t)"
    using assms(2) by (simp add: encoded_strings_def)
  have "entry_table_step (entries t ! i) (fst (string_layout (encoded_strings c t)) ! (0 + i))
          (length (encoded_strings c t ! (0 + i))) = Inr (take 26 (drop (26 * i) table))"
    using lp assms(2) by blast
  then have st: "entry_table_step (entries t ! i) (length (concat (take i (encoded_strings c t))))
          (length (encoded_strings c t ! i)) = Inr (take 26 (drop (26 * i) table))"
    by (simp add: string_offsets_nth [OF li])
  note sp = split_table_row [OF len assms(2)]
  have "bs = (header @ take (26 * i) table) @ take 26 (drop (26 * i) table)
              @ (drop (26 * i + 26) table @ concat (encoded_strings c t))"
    using bs sp(1) by (metis append.assoc)
  moreover have "length (header @ take (26 * i) table) = 18 + 26 * i"
    using sp(2) length_pack_HDR_FMT [OF h] by simp
  ultimately show ?thesis using st by blast
qed

lemma to_bytes_entry:
  assumes "to_bytes c t = Inr bs" and "i < length (entries t)"
  shows "unpack_from_ENTRY_FMT bs (18 + 26 * i) =
           Inr (nat (if text_str (entries t ! i) \<noteq> [] then flags (entries t ! i) OR FLAG_TEXT
                     else flags (entries t ! i) AND NOT FLAG_TEXT),
                ljust 8 0 (take 8 (sound_resref (entries t ! i))),
                nat (volume_variance (entries t ! i)),
                nat (pitch_variance (entries t ! i)),
                length (concat (take i (encoded_strings c t))),
                length (encoded_strings c t ! i))"
    and "0 \<le> (if text_str (entries t ! i) \<noteq> [] then flags (entries t ! i) OR FLAG_TEXT
                     else flags (entries t ! i) AND NOT FLAG_TEXT)"
    and "0 \<le> volume_variance (entries t ! i)"
    and "0 \<le> pitch_variance (entries t ! i)"
proof -
  from to_bytes_entry_step [OF assms] obtain pre r post where
    bs: "bs = pre @ r @ post" and lpre: "length pre = 18 + 26 * i" and
    st: "entry_table_step (entries t ! i) (length (concat (take i (encoded_strings c t))))
               (length (encoded_strings c t ! i)) = Inr r"
    by blast
  let ?fl = "if text_str (entries t ! i) \<noteq> [] then flags (entries t ! i) OR FLAG_TEXT
             else flags (entries t ! i) AND NOT FLAG_TEXT"
  from st have pk: "pack_ENTRY_FMT ?fl (ljust 8 0 (take 8 (sound_resref (entries t ! i))))
      (volume_variance (entries t ! i)) (pitch_variance (entries t ! i))
      (int (length (concat (take i (encoded_strings c t)))))
      (int (length (encoded_strings c t ! i))) = Inr r"
    by (simp add: entry_table_step_def Let_def)
  from unpack_pack_ENTRY_FMT [OF pk, of pre post]
  show "unpack_from_ENTRY_FMT bs (18 + 26 * i) =
           Inr (nat ?fl, ljust 8 0 (take 8 (sound_resref (entries t ! i))),
                nat (volume_variance (entries t ! i)),
                nat (pitch_variance (entries t ! i)),
                length (concat (take i (encoded_strings c t))),
                length (encoded_strings c t ! i))"
    by (simp add: bs lpre pack_s_exact length_resref)
  from pack_ENTRY_FMT_Inr [OF pk]
  show "0 \<le> ?fl" "0 \<le> volume_variance (entries t ! i)" "0 \<le> pitch_variance (entries t ! i)"
    by blast+
qed

lemma to_bytes_header:
  assumes "to_bytes c t = Inr bs"
  shows "unpack_from_HDR_FMT bs 0 =
           Inr (TLK_SIGNATURE, TLK_VERSION, nat (language_id t), length (entries t),
                18 + 26 * length (entries t))"
    and "0 \<le> language_id t"
proof -
  from assms obtain header table where
    h: "pack_HDR_FMT TLK_SIGNATURE TLK_VERSION (language_id t) (int (length (entries t)))
       (int (18 + length (entries t) * 26)) = Inr header" and
    bs: "bs = header @ table @ concat (encoded_strings c t)"
    by (rule to_bytes_Inr)
  from unpack_pack_HDR_FMT [OF h, of "table @ concat (encoded_strings c t)"]
  show "unpack_from_HDR_FMT bs 0 =
           Inr (TLK_SIGNATURE, TLK_VERSION, nat (language_id t), length (entries t),
                18 + 26 * length (entries t))"
    by (simp add: bs pack_s_exact TLK_SIGNATURE_def TLK_VERSION_def mult.commute)
  from pack_HDR_FMT_Inr [OF h] show "0 \<le> language_id t"
    by blast
qed

lemma to_bytes_blob:
  assumes "to_bytes c t = Inr bs"
  shows "drop (18 + 26 * length (entries t)) bs = concat (encoded_strings c t)"
proof -
  from assms obtain header table where
    h: "pack_HDR_FMT TLK_SIGNATURE TLK_VERSION (language_id t) (int (length (entries t)))
       (int (18 + length (entries t) * 26)) = Inr header" and
    tb: "entry_table_loop (fst (string_layout (encoded_strings c t))) (encoded_strings c t) 0 (entries t)
       = Inr table" and
    bs: "bs = header @ table @ concat (encoded_strings c t)"
    by (rule to_bytes_Inr)
  have "length table = 26 * length (entries t)"
    using entry_table_loop_Inr [OF tb] by blast
  then show ?thesis
    using length_pack_HDR_FMT [OF h] by (simp add: bs)
qed


lemma entry_offset: "HDR_SIZE + i * ENTRY_SIZE = 18 + 26 * i"
  by (simp add: HDR_SIZE_def ENTRY_SIZE_def)

lemma bit_nat_nonneg: "0 \<le> k \<Longrightarrow> bit (nat k) n = bit k n"
  by (simp add: bit_nat_iff)

text \<open>
  Claim C3. In the bytes \<open>to_bytes\<close> returns, the flags field of every entry record
  (read back at the entry's position with the entry format) has bit 0 set exactly when
  the entry's text is non-empty, whatever bit 0 was in the table, and every other bit,
  bits 1 and 2 among them, as in the table.
\<close>

theorem to_bytes_flags_bit0:
  assumes "to_bytes c t = Inr bs" and "i < length (entries t)"
  shows "\<exists>w res vol pitch off len.
           unpack_from_ENTRY_FMT bs (HDR_SIZE + i * ENTRY_SIZE) = Inr (w, res, vol, pitch, off, len)
         \<and> (bit w 0 \<longleftrightarrow> text_str (entries t ! i) \<noteq> [])
         \<and> (\<forall>n. 0 < n \<longrightarrow> (bit w n \<longleftrightarrow> bit (flags (entries t ! i)) n))"
proof -
  note e = to_bytes_entry [OF assms]
  let ?fl = "if text_str (entries t ! i) \<noteq> [] then flags (entries t ! i) OR FLAG_TEXT
             else flags (entries t ! i) AND NOT FLAG_TEXT"
  have b0: "bit (nat ?fl) 0 \<longleftrightarrow> text_str (entries t ! i) \<noteq> []"
    unfolding bit_nat_nonneg [OF e(2)] by (simp add: clear_bit0 set_bit0)
  have bn: "bit (nat ?fl) n \<longleftrightarrow> bit (flags (entries t ! i)) n" if "0 < n" for n
    unfolding bit_nat_nonneg [OF e(2)] using that by (simp add: clear_bit0_other set_bit0_other)
  show ?thesis
    unfolding entry_offset using e(1) b0 bn by blast
qed

text \<open>
  Claim C4. In the bytes \<open>to_bytes\<close> returns, the sound field of every entry record is
  exactly 8 bytes: the first 8 bytes of the entry's \<open>sound_resref\<close>, followed by zero
  bytes when it has fewer than 8.
\<close>

theorem to_bytes_sound_resref:
  assumes "to_bytes c t = Inr bs" and "i < length (entries t)"
  shows "\<exists>w res vol pitch off len.
           unpack_from_ENTRY_FMT bs (HDR_SIZE + i * ENTRY_SIZE) = Inr (w, res, vol, pitch, off, len)
         \<and> length res = 8
         \<and> res = take 8 (sound_resref (entries t ! i))
                   @ replicate (8 - length (sound_resref (entries t ! i))) 0"
proof -
  note e = to_bytes_entry [OF assms]
  show ?thesis
    unfolding entry_offset using e(1) length_resref ljust_take by metis
qed

text \<open>
  Claim C5. In the bytes \<open>to_bytes\<close> returns for a table of N entries, the last header
  field is 18 + N * 26; the string offset of the first entry is 0; the string offset of
  entry i + 1 is the string offset of entry i plus the length field of entry i, which is
  the length of the encoded text of entry i; and the bytes from 18 + N * 26 on are the
  encoded texts one after the other, with nothing between them.
\<close>

theorem to_bytes_offsets:
  assumes "to_bytes c t = Inr bs"
  shows "(\<exists>sig ver lang num.
            unpack_from_HDR_FMT bs 0 = Inr (sig, ver, lang, num, 18 + length (entries t) * 26))
       \<and> (0 < length (entries t) \<longrightarrow>
            (\<exists>w res vol pitch len.
               unpack_from_ENTRY_FMT bs (HDR_SIZE + 0 * ENTRY_SIZE) = Inr (w, res, vol, pitch, 0, len)))
       \<and> (\<forall>i. Suc i < length (entries t) \<longrightarrow>
            (\<exists>w res vol pitch off w' res' vol' pitch' len'.
               unpack_from_ENTRY_FMT bs (HDR_SIZE + i * ENTRY_SIZE)
                 = Inr (w, res, vol, pitch, off, length (encode_text c (text_str (entries t ! i))))
             \<and> unpack_from_ENTRY_FMT bs (HDR_SIZE + Suc i * ENTRY_SIZE)
                 = Inr (w', res', vol', pitch',
                        off + length (encode_text c (text_str (entries t ! i))), len')))
       \<and> drop (18 + length (entries t) * 26) bs
            = concat (map (\<lambda>entry. encode_text c (text_str entry)) (entries t))"
proof -
  have hdr: "\<exists>sig ver lang num.
            unpack_from_HDR_FMT bs 0 = Inr (sig, ver, lang, num, 18 + length (entries t) * 26)"
    using to_bytes_header(1) [OF assms] by (simp add: mult.commute)
  have first: "\<exists>w res vol pitch len.
               unpack_from_ENTRY_FMT bs (HDR_SIZE + 0 * ENTRY_SIZE) = Inr (w, res, vol, pitch, 0, len)"
    if "0 < length (entries t)"
    unfolding entry_offset using to_bytes_entry(1) [OF assms that] by simp
  have step: "\<exists>w res vol pitch off w' res' vol' pitch' len'.
               unpack_from_ENTRY_FMT bs (HDR_SIZE + i * ENTRY_SIZE)
                 = Inr (w, res, vol, pitch, off, length (encode_text c (text_str (entries t ! i))))
             \<and> unpack_from_ENTRY_FMT bs (HDR_SIZE + Suc i * ENTRY_SIZE)
                 = Inr (w', res', vol', pitch',
                        off + length (encode_text c (text_str (entries t ! i))), len')"
    if "Suc i < length (entries t)" for i
  proof -
    from that have i: "i < length (entries t)" by simp
    have li: "i < length (encoded_strings c t)"
      using i by (simp add: encoded_strings_def)
    have enc: "encoded_strings c t ! i = encode_text c (text_str (entries t ! i))"
      using i by (simp add: encoded_strings_def)
    have "length (concat (take (Suc i) (encoded_strings c t)))
          = length (concat (take i (encoded_strings c t)))
            + length (encode_text c (text_str (entries t ! i)))"
      by (simp add: concat_take_Suc [OF li] enc)
    with to_bytes_entry(1) [OF assms i] to_bytes_entry(1) [OF assms that] enc
    show ?thesis
      unfolding entry_offset by simp
  qed
  have blob: "drop (18 + length (entries t) * 26) bs
            = concat (map (\<lambda>entry. encode_text c (text_str entry)) (entries t))"
    using to_bytes_blob [OF assms] by (simp add: encoded_strings_def mult.commute)
  from hdr first step blob show ?thesis by blast
qed

lemma parse_entries_pointwise:
  assumes "\<forall>j<k. unpack_from_ENTRY_FMT data (18 + 26 * (i + j)) = Inr (f (i + j))"
  shows "parse_entries c data sb i k =
           Inr (map (\<lambda>j. case f j of (fl, res, vol, pitch, off, len) \<Rightarrow>
                  \<lparr>text_str = decode_bytes c (slice data (sb + off) (sb + off + len)),
                   sound_resref = res, flags = int fl,
                   volume_variance = int vol, pitch_variance = int pitch\<rparr>) [i..<i + k])"
  using assms
proof (induction k arbitrary: i)
  case 0
  show ?case by simp
next
  case (Suc k)
  from Suc.prems have here: "unpack_from_ENTRY_FMT data (18 + 26 * i) = Inr (f i)"
    by (metis add.right_neutral zero_less_Suc)
  have "\<forall>j<k. unpack_from_ENTRY_FMT data (18 + 26 * (Suc i + j)) = Inr (f (Suc i + j))"
    using Suc.prems by (metis Suc_less_eq add_Suc_shift)
  note ih = Suc.IH [OF this]
  have u: "[i..<i + Suc k] = i # [Suc i..<Suc i + k]"
    by (simp add: upt_conv_Cons del: upt_Suc)
  show ?case
    unfolding u
    by (simp add: entry_offset here ih Let_def split: prod.splits)
qed

lemma parse_entries_fits:
  assumes "18 + 26 * (i + k) \<le> length data"
  shows "\<exists>es. parse_entries c data sb i k = Inr es \<and> length es = k
          \<and> (\<forall>j<k. \<exists>fl res vol pitch off len.
                unpack_from_ENTRY_FMT data (18 + 26 * (i + j)) = Inr (fl, res, vol, pitch, off, len)
              \<and> text_str (es ! j) = decode_bytes c (take len (drop (sb + off) data)))"
proof -
  define f where "f j = (let r = take 26 (drop (18 + 26 * j) data)
            in (le_nat (take 2 r), take 8 (drop 2 r), le_nat (take 4 (drop 10 r)),
                    le_nat (take 4 (drop 14 r)), le_nat (take 4 (drop 18 r)),
                    le_nat (take 4 (drop 22 r))))" for j
  have un: "unpack_from_ENTRY_FMT data (18 + 26 * (i + j)) = Inr (f (i + j))" if "j < k" for j
  proof -
    from that have "26 * (i + j) + 26 \<le> 26 * (i + k)" by simp
    with assms have "\<not> length data < 18 + 26 * (i + j) + 26" by simp
    then show ?thesis
      by (simp add: unpack_from_ENTRY_FMT_def f_def Let_def)
  qed
  then have "\<forall>j<k. unpack_from_ENTRY_FMT data (18 + 26 * (i + j)) = Inr (f (i + j))"
    by blast
  note p = parse_entries_pointwise [OF this, of c sb]
  let ?es = "map (\<lambda>j. case f j of (fl, res, vol, pitch, off, len) \<Rightarrow>
                  \<lparr>text_str = decode_bytes c (slice data (sb + off) (sb + off + len)),
                   sound_resref = res, flags = int fl,
                   volume_variance = int vol, pitch_variance = int pitch\<rparr>) [i..<i + k]"
  have "\<exists>fl res vol pitch off len.
                unpack_from_ENTRY_FMT data (18 + 26 * (i + j)) = Inr (fl, res, vol, pitch, off, len)
              \<and> text_str (?es ! j) = decode_bytes c (take len (drop (sb + off) data))"
    if "j < k" for j
  proof -
    obtain fl res vol pitch off len where fj: "f (i + j) = (fl, res, vol, pitch, off, len)"
      by (cases "f (i + j)") 
    have "text_str (?es ! j) = decode_bytes c (take len (drop (sb + off) data))"
      using that by (simp add: fj slice_def)
    moreover have "unpack_from_ENTRY_FMT data (18 + 26 * (i + j)) = Inr (fl, res, vol, pitch, off, len)"
      using un [OF that] by (simp only: fj)
    ultimately show ?thesis by blast
  qed
  then have "\<forall>j<k. \<exists>fl res vol pitch off len.
                unpack_from_ENTRY_FMT data (18 + 26 * (i + j)) = Inr (fl, res, vol, pitch, off, len)
              \<and> text_str (?es ! j) = decode_bytes c (take len (drop (sb + off) data))"
    by blast
  moreover have "length ?es = k" by simp
  ultimately show ?thesis using p by blast
qed

lemma parse_entries_short:
  assumes "0 < k" and "length data < 18 + 26 * (i + k)"
  shows "parse_entries c data sb i k = Inl StructError"
  using assms
proof (induction k arbitrary: i)
  case 0
  then show ?case by simp
next
  case (Suc k)
  show ?case
  proof (cases "length data < 18 + 26 * i + 26")
    case True
    then have "unpack_from_ENTRY_FMT data (18 + 26 * i) = Inl StructError"
      by (simp add: unpack_from_ENTRY_FMT_def)
    then show ?thesis
      by (simp add: entry_offset)
  next
    case False
    with Suc.prems(2) have k: "0 < k"
      by (cases k) simp_all
    from Suc.prems(2) have "length data < 18 + 26 * (Suc i + k)"
      by simp
    note ih = Suc.IH [OF k this]
    from False obtain x where "unpack_from_ENTRY_FMT data (18 + 26 * i) = Inr x"
      by (simp add: unpack_from_ENTRY_FMT_def Let_def)
    then show ?thesis
      by (simp add: entry_offset ih Let_def split: prod.splits)
  qed
qed

lemma unpack_from_HDR_FMT_short: "length data < 18 \<Longrightarrow> unpack_from_HDR_FMT data 0 = Inl StructError"
  by (simp add: unpack_from_HDR_FMT_def)

lemma unpack_from_HDR_FMT_fits:
  "18 \<le> length data \<Longrightarrow>
     unpack_from_HDR_FMT data 0 =
       Inr (take 4 data, take 4 (drop 4 data), le_nat (take 2 (drop 8 data)),
            le_nat (take 4 (drop 10 data)), le_nat (take 4 (drop 14 data)))"
  by (simp add: unpack_from_HDR_FMT_def Let_def take_drop min_def)

lemma unpack_from_HDR_FMT_Inr:
  "unpack_from_HDR_FMT data 0 = Inr x \<Longrightarrow> 18 \<le> length data"
  by (simp add: unpack_from_HDR_FMT_def split: if_splits)

text \<open>
  Claim C6, as the code has it. A buffer of at least 18 bytes whose first 4 bytes are not
  the signature, or whose next 4 bytes are not the version, is rejected with
  \<open>ValueError\<close>; a buffer of fewer than 18 bytes is rejected with \<open>struct.error\<close>,
  whatever its bytes, because the whole header is unpacked before the two tags are
  compared. In both cases no table is returned.
\<close>

theorem parse_rejects_bad_header:
  "(18 \<le> length data \<and> (take 4 data \<noteq> TLK_SIGNATURE \<or> take 4 (drop 4 data) \<noteq> TLK_VERSION)
      \<longrightarrow> parse c data = Inl ValueError)
   \<and> (length data < 18 \<longrightarrow> parse c data = Inl StructError)"
  by (auto simp: parse_def unpack_from_HDR_FMT_short unpack_from_HDR_FMT_fits)

text \<open>
  A buffer of the 4 bytes "XLK ": its first 4 bytes are not the signature, and the error
  is \<open>struct.error\<close>, not \<open>ValueError\<close>.
\<close>

theorem parse_bad_signature_short_buffer:
  "take 4 [0x58, 0x4C, 0x4B, 0x20] \<noteq> TLK_SIGNATURE
   \<and> parse cp1252 [0x58, 0x4C, 0x4B, 0x20] = Inl StructError
   \<and> parse cp1252 [0x58, 0x4C, 0x4B, 0x20] \<noteq> Inl ValueError"
  by (simp add: parse_def unpack_from_HDR_FMT_def TLK_SIGNATURE_def)

text \<open>
  Claim C2, as the code has it. When the header unpacks with the right signature and
  version and the buffer holds all entry records, \<open>parse\<close> returns a table and raises
  nothing, wherever the string ranges lie: the text of entry i is decoded from the bytes
  of its range that are inside the buffer (the slice is clamped to the end of the
  buffer, and is empty when the range starts at or after the end). When the buffer is too
  short for the entry records, the call ends with \<open>struct.error\<close>.
\<close>

theorem parse_string_range_clamped:
  assumes "unpack_from_HDR_FMT data 0 = Inr (TLK_SIGNATURE, TLK_VERSION, lang, n, sbo)"
  shows "(HDR_SIZE + n * ENTRY_SIZE \<le> length data \<longrightarrow>
           (\<exists>t. parse c data = Inr t \<and> length (entries t) = n
              \<and> (\<forall>i<n. \<exists>fl res vol pitch off len.
                    unpack_from_ENTRY_FMT data (HDR_SIZE + i * ENTRY_SIZE)
                      = Inr (fl, res, vol, pitch, off, len)
                  \<and> text_str (entries t ! i) = decode_bytes c (take len (drop (sbo + off) data)))))
       \<and> (length data < HDR_SIZE + n * ENTRY_SIZE \<longrightarrow> parse c data = Inl StructError)"
proof (intro conjI impI)
  assume "HDR_SIZE + n * ENTRY_SIZE \<le> length data"
  then have "18 + 26 * (0 + n) \<le> length data"
    by (simp add: HDR_SIZE_def ENTRY_SIZE_def)
  from parse_entries_fits [OF this, of c sbo] obtain es where
    es: "parse_entries c data sbo 0 n = Inr es" "length es = n"
      "\<forall>j<n. \<exists>fl res vol pitch off len.
                unpack_from_ENTRY_FMT data (18 + 26 * (0 + j)) = Inr (fl, res, vol, pitch, off, len)
              \<and> text_str (es ! j) = decode_bytes c (take len (drop (sbo + off) data))"
    by blast
  have "parse c data = Inr \<lparr>language_id = int lang, entries = es\<rparr>"
    by (simp add: parse_def assms es(1))
  with es(2,3) show "\<exists>t. parse c data = Inr t \<and> length (entries t) = n
              \<and> (\<forall>i<n. \<exists>fl res vol pitch off len.
                    unpack_from_ENTRY_FMT data (HDR_SIZE + i * ENTRY_SIZE)
                      = Inr (fl, res, vol, pitch, off, len)
                  \<and> text_str (entries t ! i) = decode_bytes c (take len (drop (sbo + off) data)))"
    by (simp add: entry_offset)
next
  assume short: "length data < HDR_SIZE + n * ENTRY_SIZE"
  have "18 \<le> length data"
    by (rule unpack_from_HDR_FMT_Inr [OF assms])
  with short have n: "0 < n"
    by (cases n) (simp_all add: HDR_SIZE_def)
  from short have "length data < 18 + 26 * (0 + n)"
    by (simp add: HDR_SIZE_def ENTRY_SIZE_def)
  from parse_entries_short [OF n this, of c sbo]
  show "parse c data = Inl StructError"
    by (simp add: parse_def assms)
qed

lemma wire_flags_range:
  assumes "0 \<le> f" "f < 65536"
  shows "0 \<le> f OR FLAG_TEXT \<and> f OR FLAG_TEXT < 65536"
    and "0 \<le> f AND NOT FLAG_TEXT \<and> f AND NOT FLAG_TEXT < 65536"
proof -
  have "f OR 1 < 2 ^ 16"
    using assms by (intro OR_upper) simp_all
  then show "0 \<le> f OR FLAG_TEXT \<and> f OR FLAG_TEXT < 65536"
    using assms by (simp add: FLAG_TEXT_def)
  have "f AND NOT 1 \<le> f"
    using assms by (intro AND_upper1) simp
  then show "0 \<le> f AND NOT FLAG_TEXT \<and> f AND NOT FLAG_TEXT < 65536"
    using assms by (simp add: FLAG_TEXT_def)
qed

lemma entry_table_step_total:
  assumes "0 \<le> flags e" "flags e < 65536"
    and "0 \<le> volume_variance e" "volume_variance e < 4294967296"
    and "0 \<le> pitch_variance e" "pitch_variance e < 4294967296"
    and "off < 4294967296" "len < 4294967296"
  shows "\<exists>r. entry_table_step e off len = Inr r"
  using assms wire_flags_range [OF assms(1,2)]
  by (simp add: entry_table_step_def pack_ENTRY_FMT_def Let_def)

lemma entry_table_loop_total:
  assumes "\<forall>j<length es. \<exists>r. entry_table_step (es ! j) (offs ! (i + j)) (length (encs ! (i + j))) = Inr r"
  shows "\<exists>tbl. entry_table_loop offs encs i es = Inr tbl"
  using assms
proof (induction es arbitrary: i)
  case Nil
  show ?case by simp
next
  case (Cons e es)
  from Cons.prems obtain r where r: "entry_table_step e (offs ! i) (length (encs ! i)) = Inr r"
    by fastforce
  have "\<forall>j<length es. \<exists>r. entry_table_step (es ! j) (offs ! (Suc i + j)) (length (encs ! (Suc i + j))) = Inr r"
  proof (intro allI impI)
    fix j assume "j < length es"
    then have "Suc j < length (e # es)" by simp
    with Cons.prems have "\<exists>r. entry_table_step ((e # es) ! Suc j) (offs ! (i + Suc j))
        (length (encs ! (i + Suc j))) = Inr r"
      by blast
    then show "\<exists>r. entry_table_step (es ! j) (offs ! (Suc i + j)) (length (encs ! (Suc i + j))) = Inr r"
      by simp
  qed
  from Cons.IH [OF this] obtain tbl where "entry_table_loop offs encs (Suc i) es = Inr tbl"
    by blast
  with r show ?case by simp
qed

lemma length_concat_take_le: "length (concat (take i ss)) \<le> length (concat ss)"
proof -
  have "concat ss = concat (take i ss) @ concat (drop i ss)"
    by (metis append_take_drop_id concat_append)
  then show ?thesis by (metis length_append le_add1)
qed

lemma length_nth_le_concat:
  assumes "i < length ss"
  shows "length (ss ! i) \<le> length (concat ss)"
proof -
  have "length (concat (take (Suc i) ss)) \<le> length (concat ss)"
    by (rule length_concat_take_le)
  then show ?thesis
    by (simp add: concat_take_Suc [OF assms])
qed

lemma to_bytes_total:
  assumes lang: "0 \<le> language_id t" "language_id t < 65536"
    and fields: "\<forall>e\<in>set (entries t). 0 \<le> flags e \<and> flags e < 65536
          \<and> 0 \<le> volume_variance e \<and> volume_variance e < 4294967296
          \<and> 0 \<le> pitch_variance e \<and> pitch_variance e < 4294967296"
    and size: "18 + 26 * length (entries t) + length (concat (encoded_strings c t)) < 4294967296"
  shows "\<exists>bs. to_bytes c t = Inr bs"
proof -
  let ?encs = "encoded_strings c t"
  have len: "length ?encs = length (entries t)"
    by (simp add: encoded_strings_def)
  have "\<exists>r. entry_table_step (entries t ! j) (fst (string_layout ?encs) ! (0 + j))
            (length (?encs ! (0 + j))) = Inr r" if j: "j < length (entries t)" for j
  proof -
    from j have lj: "j < length ?encs" by (simp add: len)
    have "entries t ! j \<in> set (entries t)"
      using j by simp
    with fields have f: "0 \<le> flags (entries t ! j)" "flags (entries t ! j) < 65536"
          "0 \<le> volume_variance (entries t ! j)" "volume_variance (entries t ! j) < 4294967296"
          "0 \<le> pitch_variance (entries t ! j)" "pitch_variance (entries t ! j) < 4294967296"
      by blast+
    have "length (concat (take j ?encs)) \<le> length (concat ?encs)"
      by (rule length_concat_take_le)
    with size have o: "length (concat (take j ?encs)) < 4294967296"
      by simp
    have "length (?encs ! j) \<le> length (concat ?encs)"
      by (rule length_nth_le_concat [OF lj])
    with size have l: "length (?encs ! j) < 4294967296"
      by simp
    from entry_table_step_total [OF f o l] show ?thesis
      by (simp add: string_offsets_nth [OF lj])
  qed
  then have "\<forall>j<length (entries t). \<exists>r. entry_table_step (entries t ! j)
        (fst (string_layout ?encs) ! (0 + j)) (length (?encs ! (0 + j))) = Inr r"
    by blast
  from entry_table_loop_total [OF this] obtain tbl where
    tbl: "entry_table_loop (fst (string_layout ?encs)) ?encs 0 (entries t) = Inr tbl"
    by blast
  have "pack_HDR_FMT TLK_SIGNATURE TLK_VERSION (language_id t) (int (length (entries t)))
       (int (18 + length (entries t) * 26))
     = Inr (pack_s 4 TLK_SIGNATURE @ pack_s 4 TLK_VERSION @ u16_le (nat (language_id t))
            @ u32_le (nat (int (length (entries t)))) @ u32_le (nat (int (18 + length (entries t) * 26))))"
    using lang size by (simp add: pack_HDR_FMT_def)
  with tbl show ?thesis
    by (simp add: to_bytes_def Let_def HDR_SIZE_def ENTRY_SIZE_def)
qed

lemma parse_to_bytes:
  assumes enc: "to_bytes c t = Inr bs"
    and repr: "\<forall>e\<in>set (entries t). decode_bytes c (encode_text c (text_str e)) = text_str e"
  shows "parse c bs = Inr \<lparr>language_id = language_id t,
           entries = map (\<lambda>e. e\<lparr>sound_resref := ljust 8 0 (take 8 (sound_resref e)),
                                 flags := (if text_str e \<noteq> [] then flags e OR FLAG_TEXT
                                           else flags e AND NOT FLAG_TEXT)\<rparr>) (entries t)\<rparr>"
proof -
  let ?n = "length (entries t)"
  let ?encs = "encoded_strings c t"
  let ?sb = "18 + 26 * ?n"
  define f where "f j = (nat (if text_str (entries t ! j) \<noteq> [] then flags (entries t ! j) OR FLAG_TEXT
                     else flags (entries t ! j) AND NOT FLAG_TEXT),
                ljust 8 0 (take 8 (sound_resref (entries t ! j))),
                nat (volume_variance (entries t ! j)),
                nat (pitch_variance (entries t ! j)),
                length (concat (take j ?encs)),
                length (?encs ! j))" for j
  let ?g = "\<lambda>e::TlkEntry. e\<lparr>sound_resref := ljust 8 0 (take 8 (sound_resref e)),
                                 flags := (if text_str e \<noteq> [] then flags e OR FLAG_TEXT
                                           else flags e AND NOT FLAG_TEXT)\<rparr>"
  let ?h = "\<lambda>j. case f j of (fl, res, vol, pitch, off, len) \<Rightarrow>
                  \<lparr>text_str = decode_bytes c (slice bs (?sb + off) (?sb + off + len)),
                   sound_resref = res, flags = int fl,
                   volume_variance = int vol, pitch_variance = int pitch\<rparr>"
  have "\<forall>j<?n. unpack_from_ENTRY_FMT bs (18 + 26 * (0 + j)) = Inr (f (0 + j))"
    using to_bytes_entry(1) [OF enc] by (simp add: f_def)
  from parse_entries_pointwise [OF this, of c ?sb]
  have pe: "parse_entries c bs ?sb 0 ?n = Inr (map ?h [0..<?n])"
    by simp
  have blob: "drop ?sb bs = concat ?encs"
    by (rule to_bytes_blob [OF enc])
  have each: "?h j = ?g (entries t ! j)" if j: "j < ?n" for j
  proof -
    from j have lj: "j < length ?encs" by (simp add: encoded_strings_def)
    have ej: "?encs ! j = encode_text c (text_str (entries t ! j))"
      using j by (simp add: encoded_strings_def)
    have "slice bs (?sb + length (concat (take j ?encs)))
            (?sb + length (concat (take j ?encs)) + length (?encs ! j))
          = take (length (?encs ! j)) (drop (length (concat (take j ?encs))) (drop ?sb bs))"
      by (simp add: slice_def add.commute)
    also have "\<dots> = ?encs ! j"
      unfolding blob by (rule slice_concat [OF lj])
    finally have sl: "slice bs (?sb + length (concat (take j ?encs)))
            (?sb + length (concat (take j ?encs)) + length (?encs ! j))
          = encode_text c (text_str (entries t ! j))"
      by (simp only: ej)
    have "entries t ! j \<in> set (entries t)"
      using j by simp
    with repr have tx: "decode_bytes c (encode_text c (text_str (entries t ! j))) = text_str (entries t ! j)"
      by blast
    note rng = to_bytes_entry(2-4) [OF enc j]
    have "?h j = \<lparr>text_str = text_str (entries t ! j),
                   sound_resref = ljust 8 0 (take 8 (sound_resref (entries t ! j))),
                   flags = (if text_str (entries t ! j) \<noteq> [] then flags (entries t ! j) OR FLAG_TEXT
                     else flags (entries t ! j) AND NOT FLAG_TEXT),
                   volume_variance = volume_variance (entries t ! j),
                   pitch_variance = pitch_variance (entries t ! j)\<rparr>"
      using rng by (simp add: f_def sl tx)
    also have "\<dots> = ?g (entries t ! j)"
      by simp
    finally show ?thesis .
  qed
  have "map ?h [0..<?n] = map ?g (entries t)"
    by (rule nth_equalityI) (simp_all add: each)
  with pe have "parse_entries c bs ?sb 0 ?n = Inr (map ?g (entries t))"
    by simp
  moreover note to_bytes_header [OF enc]
  ultimately show ?thesis
    by (simp add: parse_def)
qed

lemma replicate_numeral_unfold: "replicate (numeral k) x = x # replicate (pred_numeral k) x"
  by (simp add: numeral_eq_Suc)

lemma example_to_bytes: "to_bytes cp1252 example_table = Inr example_bytes"
  by (simp add: example_table_def example_bytes_def
     to_bytes_def encoded_strings_def string_layout_def string_block_step_def entry_table_step_def
     pack_ENTRY_FMT_def pack_HDR_FMT_def Let_def cp1252_def cp1252_encode_char_def cp1252_table_def
     HDR_SIZE_def ENTRY_SIZE_def replicate_numeral_unfold
     TLK_SIGNATURE_def TLK_VERSION_def FLAG_TEXT_def u16_le_def u32_le_def pack_s_def ljust_def)

lemma example_header:
  "unpack_from_HDR_FMT example_bytes 0 = Inr (TLK_SIGNATURE, TLK_VERSION, 1, 2, 70)"
  by (simp add: example_bytes_def unpack_from_HDR_FMT_def Let_def TLK_SIGNATURE_def TLK_VERSION_def)

lemma example_entry0:
  "unpack_from_ENTRY_FMT example_bytes 18 = Inr (7, [0x41, 0x42, 0, 0, 0, 0, 0, 0], 7, 9, 0, 2)"
  by (simp add: example_bytes_def unpack_from_ENTRY_FMT_def Let_def)

lemma example_entry1:
  "unpack_from_ENTRY_FMT example_bytes 44 = Inr (0, [1, 2, 3, 4, 5, 6, 7, 8], 0, 0, 2, 0)"
  by (simp add: example_bytes_def unpack_from_ENTRY_FMT_def Let_def)

lemma parse_entries_numeral:
  "parse_entries c data sb i (numeral k) =
     (case unpack_from_ENTRY_FMT data (HDR_SIZE + i * ENTRY_SIZE) of
        Inl e \<Rightarrow> Inl e
      | Inr (fl, res, vol_var, pitch_var, str_off, str_len) \<Rightarrow>
          (let raw_str = slice data (sb + str_off) (sb + str_off + str_len);
               entry = \<lparr>text_str = decode_bytes c raw_str,
                        sound_resref = res,
                        flags = int fl,
                        volume_variance = int vol_var,
                        pitch_variance = int pitch_var\<rparr>
           in case parse_entries c data sb (Suc i) (pred_numeral k) of
                Inl e \<Rightarrow> Inl e
              | Inr es \<Rightarrow> Inr (entry # es)))"
  by (simp add: numeral_eq_Suc)

lemma example_strings:
  "slice example_bytes 70 72 = [0xE4, 0x80]" "slice example_bytes 72 72 = []"
  by (simp_all add: slice_def example_bytes_def)

lemma example_decode: "decode_bytes cp1252 [0xE4, 0x80] = [0xE4, 0x20AC]" "decode_bytes cp1252 [] = []"
  by (simp_all add: cp1252_def cp1252_decode_byte_def cp1252_table_def)

lemma example_parse_entries:
  "parse_entries cp1252 example_bytes 70 0 2 = Inr
     [\<lparr>text_str = [0xE4, 0x20AC], sound_resref = [0x41, 0x42, 0, 0, 0, 0, 0, 0], flags = 7,
       volume_variance = 7, pitch_variance = 9\<rparr>,
      \<lparr>text_str = [], sound_resref = [1, 2, 3, 4, 5, 6, 7, 8], flags = 0,
       volume_variance = 0, pitch_variance = 0\<rparr>]"
  by (simp add: parse_entries_numeral HDR_SIZE_def ENTRY_SIZE_def
        example_entry0 example_entry1 example_strings example_decode Let_def)

lemma example_parse:
  "parse cp1252 example_bytes = Inr \<lparr>language_id = 1, entries =
     [\<lparr>text_str = [0xE4, 0x20AC], sound_resref = [0x41, 0x42, 0, 0, 0, 0, 0, 0], flags = 7,
       volume_variance = 7, pitch_variance = 9\<rparr>,
      \<lparr>text_str = [], sound_resref = [1, 2, 3, 4, 5, 6, 7, 8], flags = 0,
       volume_variance = 0, pitch_variance = 0\<rparr>]\<rparr>"
  by (simp add: parse_def example_header example_parse_entries)

text \<open>
  Claim C1. Let every text of the table be representable in the codec (decoding its
  encoding gives it back). If the fields are valid for the format (language id and flags
  in 16 bits, variances in 32 bits, the encoded file shorter than 2^32 bytes), \<open>to_bytes\<close>
  returns bytes; and whenever \<open>to_bytes\<close> returns bytes, \<open>parse\<close> of them with the same
  codec returns a table with the same language id and as many entries, in the same order,
  each with the same text, the sound resref cut or zero-padded to 8 bytes, the same
  volume and pitch variance, the same flag bits from bit 1 up, and flag bit 0 set exactly
  when the text is non-empty.
\<close>

theorem roundtrip:
  assumes repr: "\<forall>e\<in>set (entries t). decode_bytes c (encode_text c (text_str e)) = text_str e"
  shows "(0 \<le> language_id t \<and> language_id t < 65536
          \<and> (\<forall>e\<in>set (entries t). 0 \<le> flags e \<and> flags e < 65536
                \<and> 0 \<le> volume_variance e \<and> volume_variance e < 4294967296
                \<and> 0 \<le> pitch_variance e \<and> pitch_variance e < 4294967296)
          \<and> 18 + 26 * length (entries t)
               + length (concat (map (\<lambda>e. encode_text c (text_str e)) (entries t))) < 4294967296
          \<longrightarrow> (\<exists>bs. to_bytes c t = Inr bs))
       \<and> (\<forall>bs. to_bytes c t = Inr bs \<longrightarrow>
            (\<exists>t'. parse c bs = Inr t'
               \<and> language_id t' = language_id t
               \<and> length (entries t') = length (entries t)
               \<and> (\<forall>i<length (entries t).
                     text_str (entries t' ! i) = text_str (entries t ! i)
                   \<and> sound_resref (entries t' ! i)
                       = take 8 (sound_resref (entries t ! i))
                         @ replicate (8 - length (sound_resref (entries t ! i))) 0
                   \<and> volume_variance (entries t' ! i) = volume_variance (entries t ! i)
                   \<and> pitch_variance (entries t' ! i) = pitch_variance (entries t ! i)
                   \<and> (bit (flags (entries t' ! i)) 0 \<longleftrightarrow> text_str (entries t ! i) \<noteq> [])
                   \<and> (\<forall>n. 0 < n \<longrightarrow>
                         (bit (flags (entries t' ! i)) n \<longleftrightarrow> bit (flags (entries t ! i)) n)))))"
proof (intro conjI impI allI)
  assume v: "0 \<le> language_id t \<and> language_id t < 65536
          \<and> (\<forall>e\<in>set (entries t). 0 \<le> flags e \<and> flags e < 65536
                \<and> 0 \<le> volume_variance e \<and> volume_variance e < 4294967296
                \<and> 0 \<le> pitch_variance e \<and> pitch_variance e < 4294967296)
          \<and> 18 + 26 * length (entries t)
               + length (concat (map (\<lambda>e. encode_text c (text_str e)) (entries t))) < 4294967296"
  then have "18 + 26 * length (entries t) + length (concat (encoded_strings c t)) < 4294967296"
    by (simp add: encoded_strings_def)
  with v show "\<exists>bs. to_bytes c t = Inr bs"
    by (intro to_bytes_total) blast+
next
  fix bs
  assume enc: "to_bytes c t = Inr bs"
  let ?g = "\<lambda>e::TlkEntry. e\<lparr>sound_resref := ljust 8 0 (take 8 (sound_resref e)),
                                 flags := (if text_str e \<noteq> [] then flags e OR FLAG_TEXT
                                           else flags e AND NOT FLAG_TEXT)\<rparr>"
  let ?t' = "\<lparr>language_id = language_id t, entries = map ?g (entries t)\<rparr>"
  have p: "parse c bs = Inr ?t'"
    by (rule parse_to_bytes [OF enc repr])
  have "text_str (entries ?t' ! i) = text_str (entries t ! i)
      \<and> sound_resref (entries ?t' ! i)
           = take 8 (sound_resref (entries t ! i))
             @ replicate (8 - length (sound_resref (entries t ! i))) 0
      \<and> volume_variance (entries ?t' ! i) = volume_variance (entries t ! i)
      \<and> pitch_variance (entries ?t' ! i) = pitch_variance (entries t ! i)
      \<and> (bit (flags (entries ?t' ! i)) 0 \<longleftrightarrow> text_str (entries t ! i) \<noteq> [])
      \<and> (\<forall>n. 0 < n \<longrightarrow> (bit (flags (entries ?t' ! i)) n \<longleftrightarrow> bit (flags (entries t ! i)) n))"
    if "i < length (entries t)" for i
    using that by (simp add: ljust_take clear_bit0 set_bit0 clear_bit0_other set_bit0_other)
  then have "language_id ?t' = language_id t
      \<and> length (entries ?t') = length (entries t)
      \<and> (\<forall>i<length (entries t).
            text_str (entries ?t' ! i) = text_str (entries t ! i)
          \<and> sound_resref (entries ?t' ! i)
               = take 8 (sound_resref (entries t ! i))
                 @ replicate (8 - length (sound_resref (entries t ! i))) 0
          \<and> volume_variance (entries ?t' ! i) = volume_variance (entries t ! i)
          \<and> pitch_variance (entries ?t' ! i) = pitch_variance (entries t ! i)
          \<and> (bit (flags (entries ?t' ! i)) 0 \<longleftrightarrow> text_str (entries t ! i) \<noteq> [])
          \<and> (\<forall>n. 0 < n \<longrightarrow> (bit (flags (entries ?t' ! i)) n \<longleftrightarrow> bit (flags (entries t ! i)) n)))"
    by simp
  with p show "\<exists>t'. parse c bs = Inr t'
               \<and> language_id t' = language_id t
               \<and> length (entries t') = length (entries t)
               \<and> (\<forall>i<length (entries t).
                     text_str (entries t' ! i) = text_str (entries t ! i)
                   \<and> sound_resref (entries t' ! i)
                       = take 8 (sound_resref (entries t ! i))
                         @ replicate (8 - length (sound_resref (entries t ! i))) 0
                   \<and> volume_variance (entries t' ! i) = volume_variance (entries t ! i)
                   \<and> pitch_variance (entries t' ! i) = pitch_variance (entries t ! i)
                   \<and> (bit (flags (entries t' ! i)) 0 \<longleftrightarrow> text_str (entries t ! i) \<noteq> [])
                   \<and> (\<forall>n. 0 < n \<longrightarrow>
                         (bit (flags (entries t' ! i)) n \<longleftrightarrow> bit (flags (entries t ! i)) n)))"
    by blast
qed

lemma example_representable:
  "\<forall>e\<in>set (entries example_table). decode_bytes cp1252 (encode_text cp1252 (text_str e)) = text_str e"
  by (simp add: example_table_def cp1252_def cp1252_encode_char_def cp1252_decode_byte_def
        cp1252_table_def)

text \<open>
  The example table with cp1252: a text with two non-ASCII characters and an empty text.
\<close>

theorem roundtrip_witness:
  "decode_bytes cp1252 (encode_text cp1252 (text_str (entries example_table ! 0)))
     = text_str (entries example_table ! 0)
   \<and> decode_bytes cp1252 (encode_text cp1252 (text_str (entries example_table ! 1)))
     = text_str (entries example_table ! 1)
   \<and> to_bytes cp1252 example_table = Inr example_bytes
   \<and> parse cp1252 example_bytes = Inr \<lparr>language_id = 1, entries =
       [\<lparr>text_str = [0xE4, 0x20AC], sound_resref = [0x41, 0x42, 0, 0, 0, 0, 0, 0], flags = 7,
         volume_variance = 7, pitch_variance = 9\<rparr>,
        \<lparr>text_str = [], sound_resref = [1, 2, 3, 4, 5, 6, 7, 8], flags = 0,
         volume_variance = 0, pitch_variance = 0\<rparr>]\<rparr>"
proof -
  have r: "decode_bytes cp1252 (encode_text cp1252 (text_str (entries example_table ! 0)))
       = text_str (entries example_table ! 0)
     \<and> decode_bytes cp1252 (encode_text cp1252 (text_str (entries example_table ! 1)))
       = text_str (entries example_table ! 1)"
    using example_representable by (simp add: example_table_def)
  from roundtrip [OF example_representable] r example_to_bytes example_parse
  show ?thesis by blast
qed

lemma example_wire_entries:
  "unpack_from_ENTRY_FMT example_bytes (HDR_SIZE + 0 * ENTRY_SIZE)
        = Inr (7, [0x41, 0x42, 0, 0, 0, 0, 0, 0], 7, 9, 0, 2)"
  "unpack_from_ENTRY_FMT example_bytes (HDR_SIZE + 1 * ENTRY_SIZE)
        = Inr (0, [1, 2, 3, 4, 5, 6, 7, 8], 0, 0, 2, 0)"
  by (simp_all add: HDR_SIZE_def ENTRY_SIZE_def example_entry0 example_entry1)

lemma example_length: "0 < length (entries example_table)" "1 < length (entries example_table)"
  by (simp_all add: example_table_def)

text \<open>
  The example table: flags 6 with a text gives 7 on the wire, flags 1 with the empty text
  gives 0.
\<close>

theorem to_bytes_flags_bit0_witness:
  "to_bytes cp1252 example_table = Inr example_bytes
   \<and> flags (entries example_table ! 0) = 6 \<and> text_str (entries example_table ! 0) \<noteq> []
   \<and> unpack_from_ENTRY_FMT example_bytes (HDR_SIZE + 0 * ENTRY_SIZE)
        = Inr (7, [0x41, 0x42, 0, 0, 0, 0, 0, 0], 7, 9, 0, 2)
   \<and> flags (entries example_table ! 1) = 1 \<and> text_str (entries example_table ! 1) = []
   \<and> unpack_from_ENTRY_FMT example_bytes (HDR_SIZE + 1 * ENTRY_SIZE)
        = Inr (0, [1, 2, 3, 4, 5, 6, 7, 8], 0, 0, 2, 0)"
proof -
  have f: "flags (entries example_table ! 0) = 6 \<and> text_str (entries example_table ! 0) \<noteq> []
         \<and> flags (entries example_table ! 1) = 1 \<and> text_str (entries example_table ! 1) = []"
    by (simp add: example_table_def)
  from to_bytes_flags_bit0 [OF example_to_bytes example_length(1)]
    to_bytes_flags_bit0 [OF example_to_bytes example_length(2)]
    example_to_bytes example_wire_entries f
  show ?thesis by blast
qed

text \<open>The example table: a resref of 2 bytes is padded, one of 9 bytes is cut.\<close>

theorem to_bytes_sound_resref_witness:
  "to_bytes cp1252 example_table = Inr example_bytes
   \<and> sound_resref (entries example_table ! 0) = [0x41, 0x42]
   \<and> unpack_from_ENTRY_FMT example_bytes (HDR_SIZE + 0 * ENTRY_SIZE)
        = Inr (7, [0x41, 0x42, 0, 0, 0, 0, 0, 0], 7, 9, 0, 2)
   \<and> sound_resref (entries example_table ! 1) = [1, 2, 3, 4, 5, 6, 7, 8, 9]
   \<and> unpack_from_ENTRY_FMT example_bytes (HDR_SIZE + 1 * ENTRY_SIZE)
        = Inr (0, [1, 2, 3, 4, 5, 6, 7, 8], 0, 0, 2, 0)"
proof -
  have f: "sound_resref (entries example_table ! 0) = [0x41, 0x42]
         \<and> sound_resref (entries example_table ! 1) = [1, 2, 3, 4, 5, 6, 7, 8, 9]"
    by (simp add: example_table_def)
  from to_bytes_sound_resref [OF example_to_bytes example_length(1)]
    to_bytes_sound_resref [OF example_to_bytes example_length(2)]
    example_to_bytes example_wire_entries f
  show ?thesis by blast
qed

text \<open>The example table: two entries, string block at 70, offsets 0 and 2.\<close>

theorem to_bytes_offsets_witness:
  "to_bytes cp1252 example_table = Inr example_bytes
   \<and> length (entries example_table) = 2
   \<and> unpack_from_HDR_FMT example_bytes 0 = Inr (TLK_SIGNATURE, TLK_VERSION, 1, 2, 70)
   \<and> unpack_from_ENTRY_FMT example_bytes (HDR_SIZE + 0 * ENTRY_SIZE)
        = Inr (7, [0x41, 0x42, 0, 0, 0, 0, 0, 0], 7, 9, 0, 2)
   \<and> unpack_from_ENTRY_FMT example_bytes (HDR_SIZE + 1 * ENTRY_SIZE)
        = Inr (0, [1, 2, 3, 4, 5, 6, 7, 8], 0, 0, 2, 0)
   \<and> drop 70 example_bytes = [0xE4, 0x80]"
proof -
  have l: "length (entries example_table) = 2"
    by (simp add: example_table_def)
  have d: "drop 70 example_bytes = [0xE4, 0x80]"
    by (simp add: example_bytes_def)
  from to_bytes_offsets [OF example_to_bytes] example_to_bytes example_header example_wire_entries l d
  show ?thesis by blast
qed

text \<open>
  The example file without its last byte: the string range of entry 0 is [70, 72), the
  buffer has 71 bytes, and \<open>parse\<close> returns a table whose entry 0 has the one-character
  text decoded from the byte that is left.
\<close>

theorem parse_truncated_string_range:
  "length (take 71 example_bytes) = 71
   \<and> unpack_from_HDR_FMT (take 71 example_bytes) 0 = Inr (TLK_SIGNATURE, TLK_VERSION, 1, 2, 70)
   \<and> unpack_from_ENTRY_FMT (take 71 example_bytes) (HDR_SIZE + 0 * ENTRY_SIZE)
        = Inr (7, [0x41, 0x42, 0, 0, 0, 0, 0, 0], 7, 9, 0, 2)
   \<and> parse cp1252 (take 71 example_bytes) = Inr \<lparr>language_id = 1, entries =
       [\<lparr>text_str = [0xE4], sound_resref = [0x41, 0x42, 0, 0, 0, 0, 0, 0], flags = 7,
         volume_variance = 7, pitch_variance = 9\<rparr>,
        \<lparr>text_str = [], sound_resref = [1, 2, 3, 4, 5, 6, 7, 8], flags = 0,
         volume_variance = 0, pitch_variance = 0\<rparr>]\<rparr>"
proof -
  have l: "length (take 71 example_bytes) = 71"
    by (simp add: example_bytes_def)
  have h: "unpack_from_HDR_FMT (take 71 example_bytes) 0 = Inr (TLK_SIGNATURE, TLK_VERSION, 1, 2, 70)"
    by (simp add: example_bytes_def unpack_from_HDR_FMT_def Let_def TLK_SIGNATURE_def TLK_VERSION_def)
  have e0: "unpack_from_ENTRY_FMT (take 71 example_bytes) 18
        = Inr (7, [0x41, 0x42, 0, 0, 0, 0, 0, 0], 7, 9, 0, 2)"
    by (simp add: example_bytes_def unpack_from_ENTRY_FMT_def Let_def)
  have e1: "unpack_from_ENTRY_FMT (take 71 example_bytes) 44
        = Inr (0, [1, 2, 3, 4, 5, 6, 7, 8], 0, 0, 2, 0)"
    by (simp add: example_bytes_def unpack_from_ENTRY_FMT_def Let_def)
  have s: "slice (take 71 example_bytes) 70 72 = [0xE4]" "slice (take 71 example_bytes) 72 72 = []"
    by (simp_all add: slice_def example_bytes_def)
  have d: "decode_bytes cp1252 [0xE4] = [0xE4]" "decode_bytes cp1252 [] = []"
    by (simp_all add: cp1252_def cp1252_decode_byte_def)
  have pe: "parse_entries cp1252 (take 71 example_bytes) 70 0 2 = Inr
     [\<lparr>text_str = [0xE4], sound_resref = [0x41, 0x42, 0, 0, 0, 0, 0, 0], flags = 7,
       volume_variance = 7, pitch_variance = 9\<rparr>,
      \<lparr>text_str = [], sound_resref = [1, 2, 3, 4, 5, 6, 7, 8], flags = 0,
       volume_variance = 0, pitch_variance = 0\<rparr>]"
    by (simp add: parse_entries_numeral HDR_SIZE_def ENTRY_SIZE_def e0 e1 s d Let_def)
  have "parse cp1252 (take 71 example_bytes) = Inr \<lparr>language_id = 1, entries =
       [\<lparr>text_str = [0xE4], sound_resref = [0x41, 0x42, 0, 0, 0, 0, 0, 0], flags = 7,
         volume_variance = 7, pitch_variance = 9\<rparr>,
        \<lparr>text_str = [], sound_resref = [1, 2, 3, 4, 5, 6, 7, 8], flags = 0,
         volume_variance = 0, pitch_variance = 0\<rparr>]\<rparr>"
    by (simp add: parse_def h pe)
  with l h e0 show ?thesis
    by (simp add: HDR_SIZE_def)
qed

text \<open>
  The example file cut to 71 bytes (all records present) and cut to 60 bytes (the second
  record incomplete).
\<close>

theorem parse_string_range_clamped_witness:
  "unpack_from_HDR_FMT (take 71 example_bytes) 0 = Inr (TLK_SIGNATURE, TLK_VERSION, 1, 2, 70)
   \<and> HDR_SIZE + 2 * ENTRY_SIZE \<le> length (take 71 example_bytes)
   \<and> (\<exists>t. parse cp1252 (take 71 example_bytes) = Inr t \<and> length (entries t) = 2
          \<and> text_str (entries t ! 0)
               = decode_bytes cp1252 (take 2 (drop (70 + 0) (take 71 example_bytes))))
   \<and> unpack_from_HDR_FMT (take 60 example_bytes) 0 = Inr (TLK_SIGNATURE, TLK_VERSION, 1, 2, 70)
   \<and> length (take 60 example_bytes) < HDR_SIZE + 2 * ENTRY_SIZE
   \<and> parse cp1252 (take 60 example_bytes) = Inl StructError"
proof -
  have h: "unpack_from_HDR_FMT (take 71 example_bytes) 0 = Inr (TLK_SIGNATURE, TLK_VERSION, 1, 2, 70)"
    by (simp add: example_bytes_def unpack_from_HDR_FMT_def Let_def TLK_SIGNATURE_def TLK_VERSION_def)
  have l: "HDR_SIZE + 2 * ENTRY_SIZE \<le> length (take 71 example_bytes)"
    by (simp add: example_bytes_def HDR_SIZE_def ENTRY_SIZE_def)
  have e0: "unpack_from_ENTRY_FMT (take 71 example_bytes) (HDR_SIZE + 0 * ENTRY_SIZE)
        = Inr (7, [0x41, 0x42, 0, 0, 0, 0, 0, 0], 7, 9, 0, 2)"
    by (simp add: example_bytes_def unpack_from_ENTRY_FMT_def Let_def HDR_SIZE_def ENTRY_SIZE_def)
  have h': "unpack_from_HDR_FMT (take 60 example_bytes) 0 = Inr (TLK_SIGNATURE, TLK_VERSION, 1, 2, 70)"
    by (simp add: example_bytes_def unpack_from_HDR_FMT_def Let_def TLK_SIGNATURE_def TLK_VERSION_def)
  have l': "length (take 60 example_bytes) < HDR_SIZE + 2 * ENTRY_SIZE"
    by (simp add: example_bytes_def HDR_SIZE_def ENTRY_SIZE_def)
  from parse_string_range_clamped [OF h, of cp1252] l e0
  have "\<exists>t. parse cp1252 (take 71 example_bytes) = Inr t \<and> length (entries t) = 2
          \<and> text_str (entries t ! 0)
               = decode_bytes cp1252 (take 2 (drop (70 + 0) (take 71 example_bytes)))"
    by fastforce
  moreover from parse_string_range_clamped [OF h', of cp1252] l'
  have "parse cp1252 (take 60 example_bytes) = Inl StructError"
    by blast
  ultimately show ?thesis
    using h l h' l' by blast
qed

text \<open>
  A wrong signature and a wrong version in buffers of 18 bytes, and a buffer of 8 bytes.
\<close>

theorem parse_rejects_bad_header_witness:
  "18 \<le> length ([0x58, 0x4C, 0x4B, 0x20, 0x56, 0x31, 0x20, 0x20] @ replicate 10 (0::byte))
   \<and> take 4 ([0x58, 0x4C, 0x4B, 0x20, 0x56, 0x31, 0x20, 0x20] @ replicate 10 (0::byte)) \<noteq> TLK_SIGNATURE
   \<and> parse cp1252 ([0x58, 0x4C, 0x4B, 0x20, 0x56, 0x31, 0x20, 0x20] @ replicate 10 0) = Inl ValueError
   \<and> 18 \<le> length ([0x54, 0x4C, 0x4B, 0x20, 0x56, 0x32, 0x20, 0x20] @ replicate 10 (0::byte))
   \<and> take 4 (drop 4 ([0x54, 0x4C, 0x4B, 0x20, 0x56, 0x32, 0x20, 0x20] @ replicate 10 (0::byte)))
        \<noteq> TLK_VERSION
   \<and> parse cp1252 ([0x54, 0x4C, 0x4B, 0x20, 0x56, 0x32, 0x20, 0x20] @ replicate 10 0) = Inl ValueError
   \<and> length [0x54, 0x4C, 0x4B, 0x20, 0x56, 0x31, 0x20, 0x20 :: byte] < 18
   \<and> parse cp1252 [0x54, 0x4C, 0x4B, 0x20, 0x56, 0x31, 0x20, 0x20] = Inl StructError"
  using parse_rejects_bad_header [of "[0x58, 0x4C, 0x4B, 0x20, 0x56, 0x31, 0x20, 0x20] @ replicate 10 0" cp1252]
    parse_rejects_bad_header [of "[0x54, 0x4C, 0x4B, 0x20, 0x56, 0x32, 0x20, 0x20] @ replicate 10 0" cp1252]
    parse_rejects_bad_header [of "[0x54, 0x4C, 0x4B, 0x20, 0x56, 0x31, 0x20, 0x20]" cp1252]
  by (simp add: TLK_SIGNATURE_def TLK_VERSION_def)

end
